theory Spec2Isabelle
  imports Main "HOL-Library.AList" "HOL-Library.Sublist"
begin

section \<open>Strings\<close>

text \<open>
  Python strings are modelled as \<open>string\<close>.  The case functions below are the ASCII part of
  Python's \<open>str.islower\<close>, \<open>str.isupper\<close>, \<open>str.lower\<close> and \<open>str.upper\<close>; every other character
  counts as uncased, so the model is exact on ASCII text.
\<close>

definition is_lower :: "char \<Rightarrow> bool" where
  "is_lower c = (97 \<le> (of_char c :: nat) \<and> (of_char c :: nat) \<le> 122)"

definition is_upper :: "char \<Rightarrow> bool" where
  "is_upper c = (65 \<le> (of_char c :: nat) \<and> (of_char c :: nat) \<le> 90)"

definition is_cased :: "char \<Rightarrow> bool" where
  "is_cased c = (is_lower c \<or> is_upper c)"

definition to_lower :: "char \<Rightarrow> char" where
  "to_lower c = (if is_upper c then char_of ((of_char c :: nat) + 32) else c)"

definition to_upper :: "char \<Rightarrow> char" where
  "to_upper c = (if is_lower c then char_of ((of_char c :: nat) - 32) else c)"

text \<open>
  \<open>str.title()\<close>: a character that follows a cased character is lower-cased, any other
  character is title-cased; whether a character counts as cased is decided on the input.
\<close>

fun title_from :: "bool \<Rightarrow> string \<Rightarrow> string" where
  "title_from previous_is_cased [] = []"
| "title_from previous_is_cased (c # cs) =
     (if previous_is_cased then to_lower c else to_upper c) # title_from (is_cased c) cs"

definition title :: "string \<Rightarrow> string" where
  "title s = title_from False s"

text \<open>\<open>s.replace(a, b)\<close> for single characters.\<close>

definition replace_char :: "char \<Rightarrow> char \<Rightarrow> string \<Rightarrow> string" where
  "replace_char a b s = map (\<lambda>c. if c = a then b else c) s"

text \<open>\<open>s.split(sep)\<close> and \<open>sep.join(xs)\<close> for a one-character separator.\<close>

fun split_sep :: "char \<Rightarrow> string \<Rightarrow> string list" where
  "split_sep sep [] = [[]]"
| "split_sep sep (c # cs) =
     (if c = sep then [] # split_sep sep cs
      else (case split_sep sep cs of
              [] \<Rightarrow> [[c]]
            | x # xs \<Rightarrow> (c # x) # xs))"

fun join_sep :: "char \<Rightarrow> string list \<Rightarrow> string" where
  "join_sep sep [] = []"
| "join_sep sep [x] = x"
| "join_sep sep (x # y # ys) = x @ sep # join_sep sep (y # ys)"

text \<open>\<open>s.rfind(c)\<close>: the index of the last occurrence of \<open>c\<close>, or \<open>-1\<close>.\<close>

definition rfind :: "char \<Rightarrow> string \<Rightarrow> int" where
  "rfind c s =
     (if c \<in> set s then int (length s) - 1 - int (length (takeWhile (\<lambda>x. x \<noteq> c) (rev s)))
      else - 1)"

text \<open>The number of positions at which \<open>needle\<close> occurs in a text.\<close>

fun occurrences :: "string \<Rightarrow> string \<Rightarrow> nat" where
  "occurrences needle [] = (if needle = [] then 1 else 0)"
| "occurrences needle (c # cs) =
     (if prefix needle (c # cs) then 1 else 0) + occurrences needle cs"

section \<open>Paths\<close>

text \<open>
  \<open>pathlib\<close> paths of the POSIX flavour: a root (\<open>''''\<close>, \<open>''/''\<close> or \<open>''//''\<close>) and the list of
  components.  \<open>Path\<close> parses a string as the constructor \<open>Path(s)\<close> does (empty and \<open>.\<close>
  components are dropped, \<open>..\<close> is kept), \<open>str_path\<close> is \<open>str(p)\<close>.  Drives, symbolic links
  and the resolution of \<open>..\<close> are outside the model: two different parsed paths are two
  different files.
\<close>

datatype ppath = PurePath (root: string) (tail: "string list")

definition root_of :: "string \<Rightarrow> string" where
  "root_of s =
     (if take 2 s = ''//'' \<and> take 3 s \<noteq> ''///'' then ''//''
      else if take 1 s = ''/'' then ''/''
      else '''')"

definition Path :: "string \<Rightarrow> ppath" where
  "Path s = PurePath (root_of s) (filter (\<lambda>x. x \<noteq> [] \<and> x \<noteq> ''.'') (split_sep CHR ''/'' s))"

definition str_path :: "ppath \<Rightarrow> string" where
  "str_path p =
     (if root p = [] \<and> tail p = [] then ''.'' else root p @ join_sep CHR ''/'' (tail p))"

definition name :: "ppath \<Rightarrow> string" where
  "name p = (if tail p = [] then [] else last (tail p))"

definition parent :: "ppath \<Rightarrow> ppath" where
  "parent p = PurePath (root p) (butlast (tail p))"

definition suffix_of :: "ppath \<Rightarrow> string" where
  "suffix_of p =
     (let nm = name p; i = rfind CHR ''.'' nm
      in if 0 < i \<and> i < int (length nm) - 1 then drop (nat i) nm else [])"

definition stem :: "ppath \<Rightarrow> string" where
  "stem p =
     (let nm = name p; i = rfind CHR ''.'' nm
      in if 0 < i \<and> i < int (length nm) - 1 then take (nat i) nm else nm)"

text \<open>\<open>p / s\<close> for a string \<open>s\<close>: an absolute right operand replaces the left one.\<close>

definition joinpath :: "ppath \<Rightarrow> string \<Rightarrow> ppath" where
  "joinpath p s =
     (let q = Path s in if root q \<noteq> [] then q else PurePath (root p) (tail p @ tail q))"

text \<open>A path that \<open>Path\<close> can produce: every component is a non-empty name without a separator.\<close>

definition valid_path :: "ppath \<Rightarrow> bool" where
  "valid_path p =
     (root p \<in> {'''', ''/'', ''//''} \<and>
      (\<forall>x \<in> set (tail p). x \<noteq> [] \<and> x \<noteq> ''.'' \<and> CHR ''/'' \<notin> set x))"

section \<open>Exceptions, files and the outside world\<close>

text \<open>The Python exception classes that the pipeline or the library calls under it raise.\<close>

datatype exn =
    ImportError | FileNotFoundError | ValueError | NotImplementedError
  | IsADirectoryError | NotADirectoryError | FileExistsError | PermissionError
  | UnicodeDecodeError | CalledProcessError | TimeoutExpired | OSError

text \<open>
  What a call of the converter raises: the three exceptions the converter raises itself
  (\<open>ImportError\<close> for the missing Markdown engine, \<open>FileNotFoundError\<close> for the missing input,
  \<open>ValueError\<close> for the missing input directory, the last two with the path of the message), or
  an exception of a library call, which the converter lets through.
\<close>

datatype error =
    DependencyMissing
  | InputNotFound string
  | InputDirectoryNotFound string
  | Lib exn

fun exn_class :: "error \<Rightarrow> exn" where
  "exn_class DependencyMissing = ImportError"
| "exn_class (InputNotFound f) = FileNotFoundError"
| "exn_class (InputDirectoryNotFound d) = ValueError"
| "exn_class (Lib e) = e"

text \<open>
  A file holds UTF-8 text or bytes that do not decode.  The file system is an association list
  from paths to nodes; its order is the order in which a directory scan enumerates.
  Permissions are not modelled.
\<close>

datatype data = Text string | Binary

datatype node = File data | Dir

datatype log_line =
    ChromeNotFound string
  | PdfHint string
  | Converted string string
  | ConvertError string error

datatype event =
    Read ppath
  | Run "string list"
  | Print log_line
  | OpenBrowser string

record world =
  fs :: "(ppath \<times> node) list"
  events :: "event list"

text \<open>What a child process does: it exits with a status, or \<open>subprocess.run\<close> raises.\<close>

datatype proc = Exited int | Fails exn

record datetime =
  year :: nat
  month :: nat
  day :: nat
  hour :: nat
  minute :: nat

text \<open>
  Everything the pipeline consults but does not own: the module flag \<open>MARKDOWN_AVAILABLE\<close>,
  the Markdown engine with the fixed extension list (taken as a total function on text),
  the clock, the working directory, what each command line does when run, whether a browser
  run stores a document at the requested PDF path, and which relative paths a glob pattern
  selects.
\<close>

record env =
  MARKDOWN_AVAILABLE :: bool
  markdown_convert :: "string \<Rightarrow> string"
  now :: datetime
  getcwd :: string
  run :: "string list \<Rightarrow> proc"
  stores_pdf :: "string list \<Rightarrow> bool"
  selects :: "string \<Rightarrow> string list \<Rightarrow> bool"

text \<open>A value that is a \<open>str\<close> in one branch of the source and a \<open>Path\<close> in the other.\<close>

datatype pathlike = Str string | PathObj ppath

fun fspath :: "pathlike \<Rightarrow> ppath" where
  "fspath (Str s) = Path s"
| "fspath (PathObj p) = p"

fun str :: "pathlike \<Rightarrow> string" where
  "str (Str s) = s"
| "str (PathObj p) = str_path p"

subsection \<open>\<open>pathlib\<close> and \<open>os\<close> operations\<close>

definition with_suffix :: "ppath \<Rightarrow> string \<Rightarrow> exn + ppath" where
  "with_suffix p sfx =
     (if name p = [] then Inl ValueError
      else Inr (PurePath (root p)
             (butlast (tail p) @
               [if suffix_of p = [] then name p @ sfx
                else take (length (name p) - length (suffix_of p)) (name p) @ sfx])))"

definition absolute :: "env \<Rightarrow> ppath \<Rightarrow> ppath" where
  "absolute E p =
     (if root p \<noteq> [] then p else PurePath (root (Path (getcwd E))) (tail (Path (getcwd E)) @ tail p))"

definition lookup :: "world \<Rightarrow> ppath \<Rightarrow> node option" where
  "lookup w p = map_of (fs w) p"

definition path_exists :: "world \<Rightarrow> ppath \<Rightarrow> bool" where
  "path_exists w p = (lookup w p \<noteq> None)"

definition is_dir :: "world \<Rightarrow> ppath \<Rightarrow> bool" where
  "is_dir w p = (lookup w p = Some Dir)"

definition is_file :: "world \<Rightarrow> ppath \<Rightarrow> bool" where
  "is_file w p = (\<exists>d. lookup w p = Some (File d))"

definition log_event :: "event \<Rightarrow> world \<Rightarrow> world" where
  "log_event e w = w\<lparr>events := events w @ [e]\<rparr>"

text \<open>\<open>open(p, 'r', encoding='utf-8')\<close> followed by \<open>read()\<close>.\<close>

definition open_read :: "ppath \<Rightarrow> world \<Rightarrow> (exn + string) \<times> world" where
  "open_read p w =
     (case lookup w p of
        None \<Rightarrow> (Inl FileNotFoundError, w)
      | Some Dir \<Rightarrow> (Inl IsADirectoryError, w)
      | Some (File Binary) \<Rightarrow> (Inl UnicodeDecodeError, log_event (Read p) w)
      | Some (File (Text s)) \<Rightarrow> (Inr s, log_event (Read p) w))"

text \<open>Creating or replacing the file at \<open>p\<close>: the target is no directory and its parent is one.\<close>

definition store :: "ppath \<Rightarrow> data \<Rightarrow> world \<Rightarrow> (exn + unit) \<times> world" where
  "store p d w =
     (case lookup w p of
        Some Dir \<Rightarrow> (Inl IsADirectoryError, w)
      | _ \<Rightarrow>
          (case lookup w (parent p) of
             None \<Rightarrow> (Inl FileNotFoundError, w)
           | Some (File x) \<Rightarrow> (Inl NotADirectoryError, w)
           | Some Dir \<Rightarrow> (Inr (), w\<lparr>fs := AList.update p (File d) (fs w)\<rparr>)))"

text \<open>\<open>open(p, 'w', encoding='utf-8')\<close> followed by \<open>write(s)\<close>.\<close>

definition open_write :: "ppath \<Rightarrow> string \<Rightarrow> world \<Rightarrow> (exn + unit) \<times> world" where
  "open_write p s w = store p (Text s) w"

definition os_unlink :: "ppath \<Rightarrow> world \<Rightarrow> (exn + unit) \<times> world" where
  "os_unlink p w =
     (case lookup w p of
        None \<Rightarrow> (Inl FileNotFoundError, w)
      | Some Dir \<Rightarrow> (Inl IsADirectoryError, w)
      | Some (File d) \<Rightarrow> (Inr (), w\<lparr>fs := AList.delete p (fs w)\<rparr>))"

definition os_mkdir :: "ppath \<Rightarrow> world \<Rightarrow> (exn + unit) \<times> world" where
  "os_mkdir p w =
     (case lookup w p of
        Some n \<Rightarrow> (Inl FileExistsError, w)
      | None \<Rightarrow>
          (case lookup w (parent p) of
             None \<Rightarrow> (Inl FileNotFoundError, w)
           | Some (File x) \<Rightarrow> (Inl NotADirectoryError, w)
           | Some Dir \<Rightarrow> (Inr (), w\<lparr>fs := AList.update p Dir (fs w)\<rparr>)))"

text \<open>
  \<open>Path.mkdir(parents=parents, exist_ok=True)\<close>: try \<open>os.mkdir\<close>; when the parent is missing and
  \<open>parents\<close> is set, make the parent this way and then the directory without \<open>parents\<close>; any
  other error is dropped when the path is a directory already.
\<close>

function mkdir :: "bool \<Rightarrow> ppath \<Rightarrow> world \<Rightarrow> (exn + unit) \<times> world" where
  "mkdir parents p w =
     (case os_mkdir p w of
        (Inr u, w1) \<Rightarrow> (Inr u, w1)
      | (Inl e, w1) \<Rightarrow>
          if e = FileNotFoundError then
            (if \<not> parents \<or> parent p = p then (Inl e, w1)
             else (case mkdir True (parent p) w1 of
                     (Inl e2, w2) \<Rightarrow> (Inl e2, w2)
                   | (Inr u, w2) \<Rightarrow> mkdir False p w2))
          else if is_dir w1 p then (Inr (), w1)
          else (Inl e, w1))"
  by pat_completeness auto
termination
proof (relation "measure (\<lambda>(parents, p, w). 2 * length (tail p) + (if parents then 1 else 0))")
  show "wf (measure (\<lambda>(parents, p, w). 2 * length (tail p) + (if parents then 1 else 0)))"
    by simp
next
  fix parents :: bool and p :: ppath and w :: world and x and xa :: exn and y :: world
  assume a: "\<not> (\<not> parents \<or> parent p = p)"
  then have "tail p \<noteq> []"
    by (cases p) (auto simp: parent_def)
  with a show "((True, parent p, y), parents, p, w)
      \<in> measure (\<lambda>(parents, p, w). 2 * length (tail p) + (if parents then 1 else 0))"
    by (simp add: parent_def)
next
  fix parents :: bool and p :: ppath and w :: world
  assume "\<not> (\<not> parents \<or> parent p = p)"
  then show "\<And>y. ((False, p, y), parents, p, w)
      \<in> measure (\<lambda>(parents, p, w). 2 * length (tail p) + (if parents then 1 else 0))"
    by simp
qed

declare mkdir.simps [simp del]

text \<open>
  \<open>Path.glob(pattern)\<close>: an empty pattern and an absolute pattern are refused; otherwise the
  entries below the directory are enumerated in the order of the file system and those the
  pattern selects are kept.  Which relative paths a pattern selects is the business of
  \<open>pathlib\<close> and comes from the environment.
\<close>

definition glob :: "env \<Rightarrow> ppath \<Rightarrow> string \<Rightarrow> world \<Rightarrow> exn + ppath list" where
  "glob E d pattern w =
     (if pattern = [] then Inl ValueError
      else if root (Path pattern) \<noteq> [] then Inl NotImplementedError
      else if \<not> is_dir w d then Inr []
      else Inr (filter
             (\<lambda>p. valid_path p \<and> root p = root d \<and> strict_prefix (tail d) (tail p) \<and>
                  selects E pattern (drop (length (tail d)) (tail p)))
             (map fst (fs w))))"

text \<open>
  \<open>subprocess.run(cmd, check=check, ...)\<close>: the run is recorded; with \<open>check\<close> a non-zero exit
  status raises \<open>CalledProcessError\<close>.
\<close>

definition subprocess_run :: "env \<Rightarrow> string list \<Rightarrow> bool \<Rightarrow> world \<Rightarrow> (exn + int) \<times> world" where
  "subprocess_run E cmd check w =
     (case run E cmd of
        Fails e \<Rightarrow> (Inl e, log_event (Run cmd) w)
      | Exited rc \<Rightarrow>
          if check \<and> rc \<noteq> 0 then (Inl CalledProcessError, log_event (Run cmd) w)
          else (Inr rc, log_event (Run cmd) w))"

text \<open>
  The one effect of a browser run on the file system: it may store a document at the path
  it was asked to print to, when a file can be created there.
\<close>

definition browser_output :: "env \<Rightarrow> string list \<Rightarrow> string \<Rightarrow> world \<Rightarrow> world" where
  "browser_output E cmd pdf_file w =
     (if stores_pdf E cmd then snd (store (Path pdf_file) Binary w) else w)"

section \<open>Templates\<close>

definition digit :: "nat \<Rightarrow> char" where
  "digit n = char_of (48 + n mod 10)"

text \<open>\<open>strftime("%Y-%m-%d %H:%M")\<close> for a date of four year digits.\<close>

definition strftime :: "datetime \<Rightarrow> string" where
  "strftime t =
     [digit (year t div 1000), digit (year t div 100), digit (year t div 10), digit (year t),
      CHR ''-'', digit (month t div 10), digit (month t),
      CHR ''-'', digit (day t div 10), digit (day t),
      CHR '' '', digit (hour t div 10), digit (hour t),
      CHR '':'', digit (minute t div 10), digit (minute t)]"

definition css_template :: string where
  \<open>css_template =
     ''\<newline>'' @
     ''        body {\<newline>'' @
     ''            font-family: 'Segoe UI', Tahoma, Geneva, Verdana, sans-serif;\<newline>'' @
     ''            line-height: 1.6;\<newline>'' @
     ''            color: #333;\<newline>'' @
     ''            max-width: 1200px;\<newline>'' @
     ''            margin: 0 auto;\<newline>'' @
     ''            padding: 20px;\<newline>'' @
     ''            background-color: #fff;\<newline>'' @
     ''        }\<newline>'' @
     ''\<newline>'' @
     ''        h1, h2, h3, h4, h5, h6 {\<newline>'' @
     ''            color: #2c3e50;\<newline>'' @
     ''            margin-top: 1.5em;\<newline>'' @
     ''            margin-bottom: 0.5em;\<newline>'' @
     ''            font-weight: bold;\<newline>'' @
     ''            page-break-after: avoid;\<newline>'' @
     ''        }\<newline>'' @
     ''\<newline>'' @
     ''        h1 {\<newline>'' @
     ''            font-size: 2.2em;\<newline>'' @
     ''            border-bottom: 3px solid #3498db;\<newline>'' @
     ''            padding-bottom: 0.3em;\<newline>'' @
     ''        }\<newline>'' @
     ''\<newline>'' @
     ''        h2 {\<newline>'' @
     ''            font-size: 1.8em;\<newline>'' @
     ''            border-bottom: 2px solid #95a5a6;\<newline>'' @
     ''            padding-bottom: 0.2em;\<newline>'' @
     ''        }\<newline>'' @
     ''\<newline>'' @
     ''        h3 { font-size: 1.4em; color: #34495e; }\<newline>'' @
     ''        h4 { font-size: 1.2em; color: #34495e; }\<newline>'' @
     ''\<newline>'' @
     ''        p {\<newline>'' @
     ''            margin-bottom: 1em;\<newline>'' @
     ''            text-align: justify;\<newline>'' @
     ''        }\<newline>'' @
     ''\<newline>'' @
     ''        ul, ol {\<newline>'' @
     ''            margin-bottom: 1em;\<newline>'' @
     ''            padding-left: 2em;\<newline>'' @
     ''        }\<newline>'' @
     ''\<newline>'' @
     ''        li { margin-bottom: 0.3em; }\<newline>'' @
     ''\<newline>'' @
     ''        table {\<newline>'' @
     ''            border-collapse: collapse;\<newline>'' @
     ''            width: 100%;\<newline>'' @
     ''            margin: 1em 0;\<newline>'' @
     ''            font-size: 0.9em;\<newline>'' @
     ''            box-shadow: 0 2px 4px rgba(0,0,0,0.1);\<newline>'' @
     ''            page-break-inside: avoid;\<newline>'' @
     ''        }\<newline>'' @
     ''\<newline>'' @
     ''        th, td {\<newline>'' @
     ''            border: 1px solid #ddd;\<newline>'' @
     ''            padding: 12px 15px;\<newline>'' @
     ''            text-align: left;\<newline>'' @
     ''            vertical-align: top;\<newline>'' @
     ''        }\<newline>'' @
     ''\<newline>'' @
     ''        th {\<newline>'' @
     ''            background: linear-gradient(135deg, #667eea 0%, #764ba2 100%);\<newline>'' @
     ''            color: white;\<newline>'' @
     ''            font-weight: bold;\<newline>'' @
     ''        }\<newline>'' @
     ''\<newline>'' @
     ''        tr:nth-child(even) { background-color: #f8f9fa; }\<newline>'' @
     ''        tr:hover { background-color: #e8f4fd; }\<newline>'' @
     ''\<newline>'' @
     ''        code {\<newline>'' @
     ''            background-color: #f4f4f4;\<newline>'' @
     ''            padding: 2px 6px;\<newline>'' @
     ''            border-radius: 4px;\<newline>'' @
     ''            font-family: 'Courier New', Consolas, monospace;\<newline>'' @
     ''            font-size: 0.9em;\<newline>'' @
     ''            color: #e74c3c;\<newline>'' @
     ''            border: 1px solid #e1e1e1;\<newline>'' @
     ''        }\<newline>'' @
     ''\<newline>'' @
     ''        pre {\<newline>'' @
     ''            background-color: #f8f8f8;\<newline>'' @
     ''            border: 1px solid #ddd;\<newline>'' @
     ''            border-radius: 6px;\<newline>'' @
     ''            padding: 1.2em;\<newline>'' @
     ''            overflow-x: auto;\<newline>'' @
     ''            margin: 1em 0;\<newline>'' @
     ''            box-shadow: inset 0 1px 3px rgba(0,0,0,0.1);\<newline>'' @
     ''            page-break-inside: avoid;\<newline>'' @
     ''        }\<newline>'' @
     ''\<newline>'' @
     ''        pre code {\<newline>'' @
     ''            background-color: transparent;\<newline>'' @
     ''            padding: 0;\<newline>'' @
     ''            color: #333;\<newline>'' @
     ''            border: none;\<newline>'' @
     ''        }\<newline>'' @
     ''\<newline>'' @
     ''        blockquote {\<newline>'' @
     ''            border-left: 4px solid #3498db;\<newline>'' @
     ''            margin: 1em 0;\<newline>'' @
     ''            padding: 1em 1em 1em 2em;\<newline>'' @
     ''            color: #666;\<newline>'' @
     ''            font-style: italic;\<newline>'' @
     ''            background-color: #f9f9f9;\<newline>'' @
     ''            border-radius: 0 4px 4px 0;\<newline>'' @
     ''        }\<newline>'' @
     ''\<newline>'' @
     ''        a {\<newline>'' @
     ''            color: #3498db;\<newline>'' @
     ''            text-decoration: none;\<newline>'' @
     ''            transition: color 0.3s ease;\<newline>'' @
     ''        }\<newline>'' @
     ''\<newline>'' @
     ''        a:hover {\<newline>'' @
     ''            color: #2980b9;\<newline>'' @
     ''            text-decoration: underline;\<newline>'' @
     ''        }\<newline>'' @
     ''\<newline>'' @
     ''        hr {\<newline>'' @
     ''            border: none;\<newline>'' @
     ''            border-top: 2px solid #ecf0f1;\<newline>'' @
     ''            margin: 2em 0;\<newline>'' @
     ''        }\<newline>'' @
     ''\<newline>'' @
     ''        strong, b { font-weight: bold; color: #2c3e50; }\<newline>'' @
     ''        em, i { font-style: italic; }\<newline>'' @
     ''\<newline>'' @
     ''        .status-complete { color: #27ae60; font-weight: bold; }\<newline>'' @
     ''        .status-progress { color: #f39c12; font-weight: bold; }\<newline>'' @
     ''        .status-pending { color: #95a5a6; font-weight: bold; }\<newline>'' @
     ''\<newline>'' @
     ''        @media print {\<newline>'' @
     ''            body { font-size: 12pt; line-height: 1.4; }\<newline>'' @
     ''            h1, h2, h3 { page-break-after: avoid; }\<newline>'' @
     ''            table, pre { page-break-inside: avoid; }\<newline>'' @
     ''        }\<newline>'' @
     ''\<newline>'' @
     ''        @media (max-width: 768px) {\<newline>'' @
     ''            body { padding: 10px; }\<newline>'' @
     ''            table { font-size: 0.8em; }\<newline>'' @
     ''            th, td { padding: 8px 10px; }\<newline>'' @
     ''        }\<newline>'' @
     ''        ''\<close>

text \<open>\<open>html_template.format(title=..., css=..., content=..., header_section=..., footer_section=...)\<close>.\<close>

definition html_template_format :: "string \<Rightarrow> string \<Rightarrow> string \<Rightarrow> string \<Rightarrow> string \<Rightarrow> string" where
  \<open>html_template_format title_text css content header_section footer_section =
     ''<!DOCTYPE html>\<newline>'' @
     ''<html lang="en">\<newline>'' @
     ''<head>\<newline>'' @
     ''    <meta charset="UTF-8">\<newline>'' @
     ''    <meta name="viewport" content="width=device-width, initial-scale=1.0">\<newline>'' @
     ''    <title>'' @ title_text @ ''</title>\<newline>'' @
     ''    <style>'' @ css @ ''</style>\<newline>'' @
     ''</head>\<newline>'' @
     ''<body>\<newline>'' @
     ''    '' @ header_section @ ''\<newline>'' @
     ''    <div class="content">\<newline>'' @
     ''        '' @ content @ ''\<newline>'' @
     ''    </div>\<newline>'' @
     ''    '' @ footer_section @ ''\<newline>'' @
     ''</body>\<newline>'' @
     ''</html>''\<close>

definition create_header_section :: "string \<Rightarrow> string \<Rightarrow> string" where
  \<open>create_header_section title_text date =
     ''    <div class="header">\<newline>'' @
     ''        <h1 class="document-title">'' @ title_text @ ''</h1>\<newline>'' @
     ''        <p class="document-meta">Generated on '' @ date @
     '' | <a href="#" onclick="window.print()">Print to PDF</a></p>\<newline>'' @
     ''    </div>''\<close>

definition create_footer_section :: string where
  \<open>create_footer_section =
     ''    <div class="footer">\<newline>'' @
     ''        <hr>\<newline>'' @
     ''        <p style="text-align: center; color: #666; font-size: 0.9em;">\<newline>'' @
     ''            Converted with Universal Markdown Converter\<newline>'' @
     ''        </p>\<newline>'' @
     ''    </div>''\<close>

section \<open>The converter\<close>

text \<open>
  Every operation takes the world and returns its result, \<open>Inl\<close> for a raised exception,
  together with the world it leaves behind.
\<close>

definition document_title :: "ppath \<Rightarrow> string" where
  "document_title input_path = title (replace_char CHR ''_'' CHR '' '' (stem input_path))"

text \<open>
  The complete HTML document for a source text: the body that the Markdown engine makes of
  it, the header and footer sections or two empty strings, and the page template.
\<close>

definition render_document :: "env \<Rightarrow> ppath \<Rightarrow> string \<Rightarrow> bool \<Rightarrow> string" where
  "render_document E input_path md_content include_headers =
     (let html_content = markdown_convert E md_content;
          header_section =
            (if include_headers
             then create_header_section (document_title input_path) (strftime (now E))
             else []);
          footer_section = (if include_headers then create_footer_section else [])
      in html_template_format (document_title input_path) css_template
           html_content header_section footer_section)"

definition convert_md_to_html ::
  "env \<Rightarrow> string \<Rightarrow> string option \<Rightarrow> bool \<Rightarrow> world \<Rightarrow> (error + string) \<times> world" where
  "convert_md_to_html E input_file output_file include_headers w =
     (if \<not> MARKDOWN_AVAILABLE E then (Inl DependencyMissing, w)
      else
        let input_path = Path input_file in
        if \<not> path_exists w input_path then (Inl (InputNotFound input_file), w)
        else
          (case (case output_file of
                   None \<Rightarrow> map_sum id PathObj (with_suffix input_path ''.html'')
                 | Some s \<Rightarrow> Inr (Str s)) of
             Inl e \<Rightarrow> (Inl (Lib e), w)
           | Inr out \<Rightarrow>
               (case open_read input_path w of
                  (Inl e, w1) \<Rightarrow> (Inl (Lib e), w1)
                | (Inr md_content, w1) \<Rightarrow>
                    (case open_write (fspath out)
                            (render_document E input_path md_content include_headers) w1 of
                       (Inl e, w2) \<Rightarrow> (Inl (Lib e), w2)
                     | (Inr u, w2) \<Rightarrow> (Inr (str out), w2)))))"

definition chrome_paths :: "string list" where
  \<open>chrome_paths =
     [''chrome'', ''google-chrome'', ''chromium'', ''chromium-browser'',
      ''C:'' @ CHR 0x5C # ''Program Files'' @ CHR 0x5C # ''Google'' @ CHR 0x5C # ''Chrome'' @
        CHR 0x5C # ''Application'' @ CHR 0x5C # ''chrome.exe'',
      ''C:'' @ CHR 0x5C # ''Program Files (x86)'' @ CHR 0x5C # ''Google'' @ CHR 0x5C # ''Chrome'' @
        CHR 0x5C # ''Application'' @ CHR 0x5C # ''chrome.exe'',
      ''/Applications/Google Chrome.app/Contents/MacOS/Google Chrome'']\<close>

definition version_cmd :: "string \<Rightarrow> string list" where
  "version_cmd chrome_path = [chrome_path, ''--version'']"

definition print_cmd :: "string \<Rightarrow> string \<Rightarrow> string \<Rightarrow> string list" where
  "print_cmd chrome_path html_file pdf_file =
     [chrome_path, ''--headless'', ''--disable-gpu'',
      ''--print-to-pdf='' @ pdf_file,
      ''--print-to-pdf-no-header'',
      ''--no-margins'', html_file]"

text \<open>The exceptions named by the \<open>except\<close> clause of the scan.\<close>

definition swallowed :: "exn \<Rightarrow> bool" where
  "swallowed e = (e = CalledProcessError \<or> e = FileNotFoundError \<or> e = TimeoutExpired)"

text \<open>The \<open>for\<close> loop of \<open>html_to_pdf_chrome\<close> over the candidates that are left.\<close>

fun scan_chrome :: "env \<Rightarrow> string \<Rightarrow> string \<Rightarrow> string list \<Rightarrow> world \<Rightarrow> (error + bool) \<times> world" where
  "scan_chrome E html_file pdf_file [] w = (Inr False, w)"
| "scan_chrome E html_file pdf_file (chrome_path # rest) w =
     (case subprocess_run E (version_cmd chrome_path) True w of
        (Inl e, w1) \<Rightarrow>
          if swallowed e then scan_chrome E html_file pdf_file rest w1 else (Inl (Lib e), w1)
      | (Inr v, w1) \<Rightarrow>
          (case subprocess_run E (print_cmd chrome_path html_file pdf_file) False w1 of
             (Inl e, w2) \<Rightarrow>
               if swallowed e
               then scan_chrome E html_file pdf_file rest
                      (browser_output E (print_cmd chrome_path html_file pdf_file) pdf_file w2)
               else (Inl (Lib e),
                     browser_output E (print_cmd chrome_path html_file pdf_file) pdf_file w2)
           | (Inr returncode, w2) \<Rightarrow>
               if returncode = 0
               then (Inr True,
                     browser_output E (print_cmd chrome_path html_file pdf_file) pdf_file w2)
               else scan_chrome E html_file pdf_file rest
                      (browser_output E (print_cmd chrome_path html_file pdf_file) pdf_file w2)))"

definition html_to_pdf_chrome :: "env \<Rightarrow> string \<Rightarrow> string \<Rightarrow> world \<Rightarrow> (error + bool) \<times> world" where
  "html_to_pdf_chrome E html_file pdf_file w = scan_chrome E html_file pdf_file chrome_paths w"

definition convert_md_to_pdf ::
  "env \<Rightarrow> string \<Rightarrow> string option \<Rightarrow> bool \<Rightarrow> world \<Rightarrow> (error + string) \<times> world" where
  "convert_md_to_pdf E input_file output_file include_headers w =
     (let input_path = Path input_file in
      case (case output_file of
              None \<Rightarrow> map_sum id PathObj (with_suffix input_path ''.pdf'')
            | Some s \<Rightarrow> Inr (Str s)) of
        Inl e \<Rightarrow> (Inl (Lib e), w)
      | Inr out \<Rightarrow>
          (case convert_md_to_html E input_file None include_headers w of
             (Inl e, w1) \<Rightarrow> (Inl e, w1)
           | (Inr html_file, w1) \<Rightarrow>
               (case html_to_pdf_chrome E html_file (str out) w1 of
                  (Inl e, w2) \<Rightarrow> (Inl e, w2)
                | (Inr True, w2) \<Rightarrow> (Inr (str out), snd (os_unlink (Path html_file) w2))
                | (Inr False, w2) \<Rightarrow>
                    (Inr html_file,
                     log_event (OpenBrowser (''file://'' @ str_path (absolute E (Path html_file))))
                       (log_event (Print (PdfHint html_file))
                         (log_event (Print (ChromeNotFound html_file)) w2))))))"

text \<open>The body of the \<open>try\<close> block of \<open>batch_convert\<close> up to the call of the single-file pipeline.\<close>

definition convert_one ::
  "env \<Rightarrow> ppath \<Rightarrow> bool \<Rightarrow> bool \<Rightarrow> ppath \<Rightarrow> world \<Rightarrow> (error + string) \<times> world" where
  "convert_one E output_path to_pdf include_headers md_file w =
     (if to_pdf
      then convert_md_to_pdf E (str_path md_file)
             (Some (str_path (joinpath output_path (stem md_file @ ''.pdf'')))) include_headers w
      else convert_md_to_html E (str_path md_file)
             (Some (str_path (joinpath output_path (stem md_file @ ''.html'')))) include_headers w)"

text \<open>The \<open>for\<close> loop of \<open>batch_convert\<close> over the matched files that are left.\<close>

fun batch_loop ::
  "env \<Rightarrow> ppath \<Rightarrow> bool \<Rightarrow> bool \<Rightarrow> ppath list \<Rightarrow> string list \<Rightarrow> world \<Rightarrow> string list \<times> world" where
  "batch_loop E output_path to_pdf include_headers [] results w = (results, w)"
| "batch_loop E output_path to_pdf include_headers (md_file # rest) results w =
     (case convert_one E output_path to_pdf include_headers md_file w of
        (Inr result, w1) \<Rightarrow>
          batch_loop E output_path to_pdf include_headers rest (results @ [result])
            (log_event (Print (Converted (name md_file) (name (Path result)))) w1)
      | (Inl e, w1) \<Rightarrow>
          batch_loop E output_path to_pdf include_headers rest results
            (log_event (Print (ConvertError (name md_file) e)) w1))"

text \<open>The output directory of a batch: the input directory, or the given one, which is made.\<close>

definition resolve_output_dir :: "ppath \<Rightarrow> string option \<Rightarrow> world \<Rightarrow> (exn + ppath) \<times> world" where
  "resolve_output_dir input_path output_dir w =
     (case output_dir of
        None \<Rightarrow> (Inr input_path, w)
      | Some d \<Rightarrow>
          (case mkdir True (Path d) w of
             (Inl e, w1) \<Rightarrow> (Inl e, w1)
           | (Inr u, w1) \<Rightarrow> (Inr (Path d), w1)))"

definition batch_convert ::
  "env \<Rightarrow> string \<Rightarrow> string option \<Rightarrow> bool \<Rightarrow> string \<Rightarrow> bool \<Rightarrow> world
     \<Rightarrow> (error + string list) \<times> world" where
  "batch_convert E input_dir output_dir to_pdf pattern include_headers w =
     (let input_path = Path input_dir in
      if \<not> path_exists w input_path then (Inl (InputDirectoryNotFound input_dir), w)
      else
        (case resolve_output_dir input_path output_dir w of
           (Inl e, w1) \<Rightarrow> (Inl (Lib e), w1)
         | (Inr output_path, w1) \<Rightarrow>
             (case glob E input_path pattern w1 of
                Inl e \<Rightarrow> (Inl (Lib e), w1)
              | Inr md_files \<Rightarrow>
                  if md_files = [] then (Inr [], w1)
                  else (case batch_loop E output_path to_pdf include_headers md_files [] w1 of
                          (results, w2) \<Rightarrow> (Inr results, w2)))))"

text \<open>
  The outcome of the single-file pipeline on each matched file, in the world the loop has
  reached when it comes to that file.
\<close>

fun outcomes ::
  "env \<Rightarrow> ppath \<Rightarrow> bool \<Rightarrow> bool \<Rightarrow> ppath list \<Rightarrow> world \<Rightarrow> (error + string) list" where
  "outcomes E output_path to_pdf include_headers [] w = []"
| "outcomes E output_path to_pdf include_headers (md_file # rest) w =
     (case convert_one E output_path to_pdf include_headers md_file w of
        (Inr result, w1) \<Rightarrow>
          Inr result #
          outcomes E output_path to_pdf include_headers rest
            (log_event (Print (Converted (name md_file) (name (Path result)))) w1)
      | (Inl e, w1) \<Rightarrow>
          Inl e #
          outcomes E output_path to_pdf include_headers rest
            (log_event (Print (ConvertError (name md_file) e)) w1))"

section \<open>Notions used in the statements\<close>

text \<open>The successful results of a list of outcomes, in order.\<close>

fun rights :: "('a + 'b) list \<Rightarrow> 'b list" where
  "rights [] = []"
| "rights (Inl e # xs) = rights xs"
| "rights (Inr r # xs) = r # rights xs"

text \<open>
  What the attempt on one candidate browser amounts to: the scan ends with success when the
  version check exits with status zero and the render does too, it ends with an exception
  when one of the two runs raises an exception that the scan does not name, and it goes on
  to the next candidate otherwise.
\<close>

datatype attempt = Success | Next | Abort exn

definition attempt_on :: "env \<Rightarrow> string \<Rightarrow> string \<Rightarrow> string \<Rightarrow> attempt" where
  "attempt_on E html_file pdf_file chrome_path =
     (case run E (version_cmd chrome_path) of
        Fails e \<Rightarrow> if swallowed e then Next else Abort e
      | Exited rc \<Rightarrow>
          if rc \<noteq> 0 then Next
          else (case run E (print_cmd chrome_path html_file pdf_file) of
                  Fails e \<Rightarrow> if swallowed e then Next else Abort e
                | Exited returncode \<Rightarrow> if returncode = 0 then Success else Next))"

text \<open>The candidates that a scan gets to: all up to and including the first that ends it.\<close>

fun tried :: "env \<Rightarrow> string \<Rightarrow> string \<Rightarrow> string list \<Rightarrow> string list" where
  "tried E html_file pdf_file [] = []"
| "tried E html_file pdf_file (c # cs) =
     (if attempt_on E html_file pdf_file c = Next then c # tried E html_file pdf_file cs else [c])"

fun is_version_run :: "event \<Rightarrow> bool" where
  "is_version_run (Run [c, v]) = (v = ''--version'')"
| "is_version_run e = False"

text \<open>The path in the directory of \<open>p\<close> with the stem of \<open>p\<close> and the extension \<open>ext\<close>.\<close>

definition sibling :: "ppath \<Rightarrow> string \<Rightarrow> ppath" where
  "sibling p ext = PurePath (root p) (butlast (tail p) @ [stem p @ CHR ''.'' # ext])"


text \<open>The path that a PDF conversion is asked to print to.\<close>

definition requested_pdf :: "string \<Rightarrow> string option \<Rightarrow> string" where
  "requested_pdf input_file output_file =
     (case output_file of
        Some s \<Rightarrow> s
      | None \<Rightarrow>
          (case with_suffix (Path input_file) ''.pdf'' of
             Inl e \<Rightarrow> []
           | Inr p \<Rightarrow> str_path p))"

text \<open>Every entry of the file system other than a root lies in a directory.\<close>

definition wf_world :: "world \<Rightarrow> bool" where
  "wf_world w =
     list_all (\<lambda>p. tail p \<noteq> [] \<longrightarrow> is_dir w (parent p)) (map fst (fs w))"

text \<open>The directories above a path, the path itself included.\<close>

definition ancestors :: "ppath \<Rightarrow> ppath list" where
  "ancestors p = map (\<lambda>k. PurePath (root p) (take k (tail p))) [0..<Suc (length (tail p))]"

section \<open>An example environment and world\<close>

definition example_env :: env where
  "example_env =
     \<lparr>MARKDOWN_AVAILABLE = True,
      markdown_convert = (\<lambda>s. ''<p>'' @ s @ ''</p>''),
      now = \<lparr>year = 2024, month = 3, day = 9, hour = 7, minute = 5\<rparr>,
      getcwd = ''/home/user'',
      run = (\<lambda>cmd. Fails FileNotFoundError),
      stores_pdf = (\<lambda>cmd. False),
      selects = (\<lambda>pattern rel. length rel = 1 \<and> drop (length (last rel) - 3) (last rel) = ''.md'')\<rparr>"

definition example_world :: world where
  "example_world =
     \<lparr>fs = [(PurePath [] [], Dir),
            (PurePath [] [''docs''], Dir),
            (PurePath [] [''docs'', ''my_notes.md''], File (Text ''Hello'')),
            (PurePath [] [''docs'', ''bad.md''], File Binary),
            (PurePath [] [''docs'', ''z.md''], File (Text ''zz''))],
      events = []\<rparr>"

text \<open>
  An environment in which the first candidate is found but may not be executed, so that
  \<open>subprocess.run\<close> raises \<open>PermissionError\<close>, and every other command exits with status zero.
\<close>

definition permission_env :: env where
  "permission_env =
     example_env\<lparr>run := (\<lambda>cmd. if cmd = version_cmd ''chrome'' then Fails PermissionError
                            else Exited 0)\<rparr>"

text \<open>A world in which the directory \<open>docs\<close> is empty.\<close>

definition empty_world :: world where
  "empty_world = \<lparr>fs = [(PurePath [] [], Dir), (PurePath [] [''docs''], Dir)], events = []\<rparr>"

text \<open>A world with a Markdown file whose text contains the words of the header.\<close>

definition log_world :: world where
  "log_world =
     \<lparr>fs = [(PurePath [] [], Dir),
            (PurePath [] [''docs''], Dir),
            (PurePath [] [''docs'', ''log.md''], File (Text ''Generated on Monday''))],
      events = []\<rparr>"

section \<open>Basic facts about the operations\<close>

lemma open_read_fs: "open_read p w = (r, w1) \<Longrightarrow> fs w1 = fs w"
  by (auto simp: open_read_def log_event_def split: option.splits node.splits data.splits)

lemma store_Inl: "store p d w = (Inl e, w1) \<Longrightarrow> w1 = w"
  by (auto simp: store_def split: option.splits node.splits)

lemma html_error_cases:
  assumes "convert_md_to_html E f out h w = (Inl e, w1)"
  shows "(e = DependencyMissing \<and> \<not> MARKDOWN_AVAILABLE E \<and> w1 = w) \<or>
         (e = InputNotFound f \<and> MARKDOWN_AVAILABLE E \<and> \<not> path_exists w (Path f) \<and> w1 = w) \<or>
         (\<exists>x. e = Lib x \<and> MARKDOWN_AVAILABLE E \<and> path_exists w (Path f) \<and> fs w1 = fs w)"
  using assms
  by (auto simp: convert_md_to_html_def Let_def open_write_def
      split: if_splits sum.splits prod.splits option.splits dest: open_read_fs store_Inl)

subsection \<open>The scan over the candidate browsers\<close>

lemma subprocess_run_events:
  "subprocess_run E cmd check w = (r, w1) \<Longrightarrow> events w1 = events w @ [Run cmd] \<and> fs w1 = fs w"
  by (auto simp: subprocess_run_def log_event_def split: proc.splits if_splits)

lemma browser_output_events: "events (browser_output E cmd pdf w) = events w"
  by (auto simp: browser_output_def store_def split: option.splits node.splits)

lemma scan_step:
  "scan_chrome E h p (c # cs) w =
     (case attempt_on E h p c of
        Success \<Rightarrow>
          (Inr True, browser_output E (print_cmd c h p) p
             (log_event (Run (print_cmd c h p)) (log_event (Run (version_cmd c)) w)))
      | Abort e \<Rightarrow>
          (Inl (Lib e),
           if run E (version_cmd c) = Exited 0
           then browser_output E (print_cmd c h p) p
                  (log_event (Run (print_cmd c h p)) (log_event (Run (version_cmd c)) w))
           else log_event (Run (version_cmd c)) w)
      | Next \<Rightarrow>
          scan_chrome E h p cs
            (if run E (version_cmd c) = Exited 0
             then browser_output E (print_cmd c h p) p
                    (log_event (Run (print_cmd c h p)) (log_event (Run (version_cmd c)) w))
             else log_event (Run (version_cmd c)) w))"
  by (simp add: attempt_on_def subprocess_run_def swallowed_def split: proc.splits)

lemma scan_chrome_result:
  "fst (scan_chrome E h p cs w) =
     (case find (\<lambda>c. attempt_on E h p c \<noteq> Next) cs of
        None \<Rightarrow> Inr False
      | Some c \<Rightarrow> (case attempt_on E h p c of Abort e \<Rightarrow> Inl (Lib e) | _ \<Rightarrow> Inr True))"
proof (induction cs arbitrary: w)
  case Nil
  show ?case by simp
next
  case (Cons c cs)
  show ?case
    by (cases "attempt_on E h p c") (simp_all add: scan_step Cons.IH del: scan_chrome.simps)
qed

lemma is_version_run_version [simp]: "is_version_run (Run (version_cmd c))"
  by (simp add: version_cmd_def)

lemma is_version_run_print [simp]: "\<not> is_version_run (Run (print_cmd c h p))"
  by (simp add: print_cmd_def)

lemma scan_chrome_events:
  "\<exists>es. events (snd (scan_chrome E h p cs w)) = events w @ es \<and>
        filter is_version_run es = map (\<lambda>c. Run (version_cmd c)) (tried E h p cs)"
proof (induction cs arbitrary: w)
  case Nil
  show ?case by simp
next
  case (Cons c cs)
  show ?case
  proof (cases "attempt_on E h p c")
    case Success
    then show ?thesis
      by (simp add: scan_step browser_output_events log_event_def del: scan_chrome.simps)
  next
    case (Abort e)
    then show ?thesis
      by (simp add: scan_step browser_output_events log_event_def del: scan_chrome.simps)
  next
    case Next
    let ?w1 = "if run E (version_cmd c) = Exited 0
             then browser_output E (print_cmd c h p) p
                    (log_event (Run (print_cmd c h p)) (log_event (Run (version_cmd c)) w))
             else log_event (Run (version_cmd c)) w"
    from Cons.IH [of ?w1] obtain es where
      es: "events (snd (scan_chrome E h p cs ?w1)) = events ?w1 @ es"
          "filter is_version_run es = map (\<lambda>c. Run (version_cmd c)) (tried E h p cs)"
      by blast
    have "\<exists>pre. events ?w1 = events w @ Run (version_cmd c) # pre \<and> filter is_version_run pre = []"
      by (simp add: browser_output_events log_event_def)
    then obtain pre where pre: "events ?w1 = events w @ Run (version_cmd c) # pre"
        "filter is_version_run pre = []"
      by blast
    have "events (snd (scan_chrome E h p (c # cs) w)) = events w @ (Run (version_cmd c) # pre @ es)"
      using Next es(1) pre(1) by (simp add: scan_step del: scan_chrome.simps)
    moreover have "filter is_version_run (Run (version_cmd c) # pre @ es) =
        map (\<lambda>c. Run (version_cmd c)) (tried E h p (c # cs))"
      using Next es(2) pre(2) by simp
    ultimately show ?thesis by blast
  qed
qed

subsection \<open>The loop over the matched files\<close>

lemma batch_loop_outcomes:
  "fst (batch_loop E out t h files acc w) = acc @ rights (outcomes E out t h files w)"
proof (induction files arbitrary: acc w)
  case Nil
  show ?case by simp
next
  case (Cons f files)
  show ?case
  proof (cases "convert_one E out t h f w")
    case (Pair r w1)
    then show ?thesis
      by (cases r) (simp_all add: Cons.IH)
  qed
qed

lemma length_outcomes: "length (outcomes E out t h files w) = length files"
proof (induction files arbitrary: w)
  case Nil
  show ?case by simp
next
  case (Cons f files)
  show ?case
  proof (cases "convert_one E out t h f w")
    case (Pair r w1)
    then show ?thesis
      by (cases r) (simp_all add: Cons.IH)
  qed
qed


lemma length_rights_le: "length (rights xs) \<le> length xs"
  by (induction xs rule: rights.induct) simp_all




lemma outcomes_subseq:
  "\<exists>conv. subseq conv files \<and>
     list_all2 (\<lambda>f r. \<exists>w0. fst (convert_one E out t h f w0) = Inr r) conv
       (rights (outcomes E out t h files w))"
proof (induction files arbitrary: w)
  case Nil
  show ?case by simp
next
  case (Cons f files)
  obtain r w1 where c: "convert_one E out t h f w = (r, w1)"
    by (cases "convert_one E out t h f w")
  show ?case
  proof (cases r)
    case (Inl e)
    from Cons.IH [of "log_event (Print (ConvertError (name f) e)) w1"]
    obtain conv where "subseq conv files"
      "list_all2 (\<lambda>f r. \<exists>w0. fst (convert_one E out t h f w0) = Inr r) conv
        (rights (outcomes E out t h files (log_event (Print (ConvertError (name f) e)) w1)))"
      by blast
    then show ?thesis
      using c Inl by (intro exI [of _ conv]) (simp add: list_emb_Cons)
  next
    case (Inr x)
    from Cons.IH [of "log_event (Print (Converted (name f) (name (Path x)))) w1"]
    obtain conv where d: "subseq conv files"
      "list_all2 (\<lambda>f r. \<exists>w0. fst (convert_one E out t h f w0) = Inr r) conv
        (rights (outcomes E out t h files (log_event (Print (Converted (name f) (name (Path x)))) w1)))"
      by blast
    have "fst (convert_one E out t h f w) = Inr x"
      using c Inr by simp
    then have "\<exists>w0. fst (convert_one E out t h f w0) = Inr x" by blast
    then show ?thesis
      using c Inr d by (intro exI [of _ "f # conv"]) simp
  qed
qed

lemma batch_convert_loop:
  assumes "path_exists w (Path d)" "resolve_output_dir (Path d) od w = (Inr output_path, w1)"
    "glob E (Path d) pattern w1 = Inr md_files"
  shows "fst (batch_convert E d od t pattern h w) = Inr (rights (outcomes E output_path t h md_files w1))"
proof (cases "md_files = []")
  case True
  then show ?thesis using assms by (simp add: batch_convert_def)
next
  case False
  obtain rs w2 where l: "batch_loop E output_path t h md_files [] w1 = (rs, w2)"
    by (cases "batch_loop E output_path t h md_files [] w1")
  then have "rs = rights (outcomes E output_path t h md_files w1)"
    using batch_loop_outcomes [of E output_path t h md_files "[]" w1] by simp
  then show ?thesis
    using assms False l by (simp add: batch_convert_def)
qed

lemma batch_convert_Inr:
  assumes "batch_convert E d od t pattern h w = (Inr results, w')"
  shows "\<exists>output_path w1 md_files. path_exists w (Path d) \<and>
     resolve_output_dir (Path d) od w = (Inr output_path, w1) \<and>
     glob E (Path d) pattern w1 = Inr md_files"
  using assms
  by (auto simp: batch_convert_def Let_def split: if_splits prod.splits sum.splits)

subsection \<open>Evaluating the pipeline on a concrete world\<close>

lemmas eval_defs =
  batch_convert_def resolve_output_dir_def glob_def convert_one_def convert_md_to_html_def
  convert_md_to_pdf_def html_to_pdf_chrome_def chrome_paths_def subprocess_run_def
  browser_output_def open_read_def open_write_def store_def os_unlink_def os_mkdir_def
  log_event_def lookup_def path_exists_def is_dir_def with_suffix_def suffix_of_def stem_def
  name_def parent_def rfind_def joinpath_def Path_def root_of_def str_path_def valid_path_def
  version_cmd_def print_cmd_def swallowed_def absolute_def
  example_env_def example_world_def Let_def

lemma ev_batch_html:
  "fst (batch_convert example_env ''docs'' None False ''*.md'' True example_world)
     = Inr [''docs/my_notes.html'', ''docs/z.html'']"
  by (simp add: eval_defs)

lemma ev_glob:
  "glob example_env (Path ''docs'') ''*.md'' example_world =
     Inr [PurePath [] [''docs'', ''my_notes.md''], PurePath [] [''docs'', ''bad.md''],
          PurePath [] [''docs'', ''z.md'']]"
  by (simp add: eval_defs)


lemma ev_html_notes:
  "fst (convert_md_to_html example_env ''docs/my_notes.md'' None True example_world)
     = Inr ''docs/my_notes.html''"
  by (simp add: eval_defs)

lemma ev_pdf_notes:
  "fst (convert_md_to_pdf example_env ''docs/my_notes.md'' (Some ''out/my_notes.pdf'') True
         example_world) = Inr ''docs/my_notes.html''"
  by (simp add: eval_defs)

subsection \<open>Paths and their string form\<close>

lemma split_sep_no_sep: "sep \<notin> set s \<Longrightarrow> split_sep sep s = [s]"
  by (induction s) auto

lemma split_sep_append:
  "sep \<notin> set x \<Longrightarrow> split_sep sep (x @ sep # rest) = x # split_sep sep rest"
  by (induction x) auto

lemma split_sep_join:
  "xs \<noteq> [] \<Longrightarrow> \<forall>x \<in> set xs. sep \<notin> set x \<Longrightarrow> split_sep sep (join_sep sep xs) = xs"
proof (induction sep xs rule: join_sep.induct)
  case (1 sep)
  then show ?case by simp
next
  case (2 sep x)
  then show ?case by (simp add: split_sep_no_sep)
next
  case (3 sep x y ys)
  then show ?case by (simp add: split_sep_append)
qed

lemma valid_Path: "valid_path (Path s)"
proof -
  have "\<forall>x \<in> set (split_sep CHR ''/'' s). CHR ''/'' \<notin> set x"
  proof (induction s)
    case Nil
    show ?case by simp
  next
    case (Cons c s)
    then show ?case by (auto split: list.splits)
  qed
  then show ?thesis
    by (auto simp: valid_path_def Path_def root_of_def)
qed

lemma hd_join_sep: "xs \<noteq> [] \<Longrightarrow> hd xs \<noteq> [] \<Longrightarrow> hd (join_sep sep xs) = hd (hd xs)"
  by (induction sep xs rule: join_sep.induct) auto

lemma join_sep_nonempty: "xs \<noteq> [] \<Longrightarrow> hd xs \<noteq> [] \<Longrightarrow> join_sep sep xs \<noteq> []"
  by (induction sep xs rule: join_sep.induct) auto

lemma root_of_no_slash: "s \<noteq> [] \<Longrightarrow> hd s \<noteq> CHR ''/'' \<Longrightarrow> root_of s = []"
  by (cases s) (auto simp: root_of_def)

lemma root_of_empty: "root_of [] = []"
  by (simp add: root_of_def)

lemma root_of_slash: "s = [] \<or> hd s \<noteq> CHR ''/'' \<Longrightarrow> root_of (CHR ''/'' # s) = ''/''"
  by (cases s) (auto simp: root_of_def)

lemma root_of_slash2: "s = [] \<or> hd s \<noteq> CHR ''/'' \<Longrightarrow> root_of (CHR ''/'' # CHR ''/'' # s) = ''//''"
  by (cases s) (auto simp: root_of_def)

lemma Path_str_path:
  assumes "valid_path p"
  shows "Path (str_path p) = p"
proof (cases "tail p = []")
  case True
  then show ?thesis
    using assms by (cases p) (auto simp: valid_path_def Path_def str_path_def root_of_def)
next
  case False
  let ?j = "join_sep CHR ''/'' (tail p)"
  have v: "\<forall>x \<in> set (tail p). x \<noteq> [] \<and> x \<noteq> ''.'' \<and> CHR ''/'' \<notin> set x"
    using assms by (simp add: valid_path_def)
  have sp: "split_sep CHR ''/'' ?j = tail p"
    using False v by (simp add: split_sep_join)
  have f: "filter (\<lambda>x. x \<noteq> [] \<and> x \<noteq> ''.'') (tail p) = tail p"
    using v by (simp add: filter_id_conv)
  have h: "hd (tail p) \<noteq> []" "CHR ''/'' \<notin> set (hd (tail p))"
    using False v by (simp_all add: hd_in_set)
  then have "hd (hd (tail p)) \<noteq> CHR ''/''"
    by (cases "hd (tail p)") auto
  then have hj: "?j \<noteq> []" "hd ?j \<noteq> CHR ''/''"
    using False h by (simp_all add: join_sep_nonempty hd_join_sep)
  from assms have "root p = [] \<or> root p = ''/'' \<or> root p = ''//''"
    by (simp add: valid_path_def)
  then show ?thesis
  proof (elim disjE)
    assume r: "root p = []"
    then have "str_path p = ?j" using False by (simp add: str_path_def)
    then show ?thesis
      using r sp f hj by (cases p) (simp add: Path_def root_of_no_slash)
  next
    assume r: "root p = ''/''"
    then have s: "str_path p = CHR ''/'' # ?j" by (simp add: str_path_def)
    have "split_sep CHR ''/'' (CHR ''/'' # ?j) = [] # tail p"
      using sp by simp
    then show ?thesis
      using r s f hj by (cases p) (simp add: Path_def root_of_slash)
  next
    assume r: "root p = ''//''"
    then have s: "str_path p = CHR ''/'' # CHR ''/'' # ?j" by (simp add: str_path_def)
    have "split_sep CHR ''/'' (CHR ''/'' # CHR ''/'' # ?j) = [] # [] # tail p"
      using sp by simp
    then show ?thesis
      using r s f hj by (cases p) (simp add: Path_def root_of_slash2)
  qed
qed

lemma Path_str_path_Path: "Path (str_path (Path s)) = Path s"
  by (simp add: Path_str_path valid_Path)

lemma takeWhile_upto: "a \<notin> set ys \<Longrightarrow> takeWhile (\<lambda>c. c \<noteq> a) (ys @ a # zs) = ys"
  by (induction ys) auto

lemma rfind_append_dot:
  assumes "CHR ''.'' \<notin> set e"
  shows "rfind CHR ''.'' (x @ CHR ''.'' # e) = int (length x)"
proof -
  have "takeWhile (\<lambda>c. c \<noteq> CHR ''.'') (rev e @ CHR ''.'' # rev x) = rev e"
    using assms by (simp add: takeWhile_upto)
  then show ?thesis
    by (simp add: rfind_def)
qed

lemma rfind_bounds: "rfind c s < int (length s)" "- 1 \<le> rfind c s"
proof -
  have "length (takeWhile (\<lambda>x. x \<noteq> c) (rev s)) \<le> length s"
    using length_takeWhile_le [of "\<lambda>x. x \<noteq> c" "rev s"] by simp
  moreover have "c \<in> set s \<Longrightarrow> length (takeWhile (\<lambda>x. x \<noteq> c) (rev s)) < length s"
  proof -
    assume "c \<in> set s"
    then have "c \<in> set (rev s)" by simp
    then have "takeWhile (\<lambda>x. x \<noteq> c) (rev s) \<noteq> rev s"
      by (metis (mono_tags, lifting) set_takeWhileD)
    then have "length (takeWhile (\<lambda>x. x \<noteq> c) (rev s)) \<noteq> length (rev s)"
      by (metis takeWhile_eq_take take_all order_refl)
    then show ?thesis
      using length_takeWhile_le [of "\<lambda>x. x \<noteq> c" "rev s"] by simp
  qed
  ultimately show "rfind c s < int (length s)" "- 1 \<le> rfind c s"
    by (auto simp: rfind_def)
qed

lemma stem_append_suffix: "stem p @ suffix_of p = name p"
  by (simp add: stem_def suffix_of_def Let_def)

lemma stem_nonempty: "tail p \<noteq> [] \<Longrightarrow> last (tail p) \<noteq> [] \<Longrightarrow> stem p \<noteq> []"
  by (auto simp: stem_def Let_def name_def)

lemma set_stem: "set (stem p) \<subseteq> set (name p)"
  by (auto simp: stem_def Let_def dest: in_set_takeD)

lemma with_suffix_Inr:
  assumes "with_suffix p sfx = Inr q"
  shows "tail p \<noteq> [] \<and> name p \<noteq> [] \<and> q = PurePath (root p) (butlast (tail p) @ [stem p @ sfx])"
proof -
  from assms have n: "name p \<noteq> []"
    by (auto simp: with_suffix_def split: if_splits)
  then have t: "tail p \<noteq> []" by (auto simp: name_def)
  have "take (length (name p) - length (suffix_of p)) (name p) = stem p"
    if "suffix_of p \<noteq> []"
    using that by (auto simp: stem_def suffix_of_def Let_def split: if_splits)
  moreover have "stem p = name p" if "suffix_of p = []"
    using that stem_append_suffix [of p] by simp
  ultimately show ?thesis
    using assms n t by (auto simp: with_suffix_def split: if_splits)
qed

lemma with_suffix_Inl: "with_suffix p sfx = Inl e \<Longrightarrow> name p = [] \<and> e = ValueError"
  by (auto simp: with_suffix_def split: if_splits)

lemma stem_new_name:
  assumes "x \<noteq> []" "CHR ''.'' \<notin> set e" "e \<noteq> []"
  shows "stem (PurePath r (ts @ [x @ CHR ''.'' # e])) = x"
  using assms by (simp add: stem_def name_def Let_def rfind_append_dot)

lemma name_new: "name (PurePath r (ts @ [x])) = x"
  by (simp add: name_def)

lemma parent_new: "parent (PurePath r (ts @ [x])) = PurePath r ts"
  by (simp add: parent_def)

subsection \<open>What the operations do to the file system\<close>

lemma store_Inr:
  assumes "store p d w = (Inr u, w1)"
  shows "lookup w1 = (lookup w)(p \<mapsto> File d) \<and> events w1 = events w \<and>
         is_dir w (parent p) \<and> \<not> is_dir w p"
  using assms
  by (auto simp: store_def lookup_def is_dir_def update_conv'
      split: option.splits node.splits)

lemma store_lookup:
  "lookup (snd (store p d w)) q = lookup w q \<or>
   (q = p \<and> lookup w q \<noteq> Some Dir \<and> lookup (snd (store p d w)) q = Some (File d))"
  by (auto simp: store_def lookup_def update_conv' split: option.splits node.splits)

lemma open_read_Inr:
  "open_read p w = (Inr s, w1) \<Longrightarrow>
   lookup w p = Some (File (Text s)) \<and> w1 = log_event (Read p) w"
  by (auto simp: open_read_def split: option.splits node.splits data.splits)

lemma lookup_log_event [simp]: "lookup (log_event e w) = lookup w"
  by (simp add: lookup_def log_event_def fun_eq_iff)

lemma events_log_event [simp]: "events (log_event e w) = events w @ [e]"
  by (simp add: log_event_def)

lemma html_Inr:
  assumes "convert_md_to_html E f out h w = (Inr r, w1)"
  shows "\<exists>tgt md. MARKDOWN_AVAILABLE E \<and> path_exists w (Path f) \<and>
           (case out of None \<Rightarrow> map_sum id PathObj (with_suffix (Path f) ''.html'')
                      | Some s \<Rightarrow> Inr (Str s)) = Inr tgt \<and>
           r = str tgt \<and>
           lookup w (Path f) = Some (File (Text md)) \<and>
           lookup w1 = (lookup w)(fspath tgt \<mapsto> File (Text (render_document E (Path f) md h))) \<and>
           events w1 = events w @ [Read (Path f)] \<and>
           is_dir w (parent (fspath tgt))"
proof -
  from assms have a: "MARKDOWN_AVAILABLE E" "path_exists w (Path f)"
    by (auto simp: convert_md_to_html_def Let_def split: if_splits)
  with assms obtain tgt where t:
    "(case out of None \<Rightarrow> map_sum id PathObj (with_suffix (Path f) ''.html'')
                | Some s \<Rightarrow> Inr (Str s)) = Inr tgt"
    by (auto simp: convert_md_to_html_def Let_def split: sum.splits)
  with assms a obtain md wr where r: "open_read (Path f) w = (Inr md, wr)"
    by (auto simp: convert_md_to_html_def Let_def split: sum.splits prod.splits)
  with assms a t have s:
    "store (fspath tgt) (Text (render_document E (Path f) md h)) wr = (Inr (), w1)" "r = str tgt"
    by (auto simp: convert_md_to_html_def Let_def open_write_def split: sum.splits prod.splits)
  from open_read_Inr [OF r] store_Inr [OF s(1)] a t s(2)
  show ?thesis
    by (auto simp: is_dir_def)
qed

lemma browser_output_lookup:
  "lookup (browser_output E cmd pdf w) q = lookup w q \<or>
   (q = Path pdf \<and> lookup w q \<noteq> Some Dir \<and> lookup (browser_output E cmd pdf w) q = Some (File Binary))"
  using store_lookup [of "Path pdf" Binary w q]
  by (auto simp: browser_output_def)

lemma scan_chrome_lookup:
  "lookup (snd (scan_chrome E h p cs w)) q = lookup w q \<or>
   (q = Path p \<and> lookup w q \<noteq> Some Dir \<and> lookup (snd (scan_chrome E h p cs w)) q = Some (File Binary))"
proof (induction cs arbitrary: w)
  case Nil
  show ?case by simp
next
  case (Cons c cs)
  let ?w2 = "browser_output E (print_cmd c h p) p
               (log_event (Run (print_cmd c h p)) (log_event (Run (version_cmd c)) w))"
  have b: "lookup ?w2 q = lookup w q \<or>
      (q = Path p \<and> lookup w q \<noteq> Some Dir \<and> lookup ?w2 q = Some (File Binary))"
    using browser_output_lookup [of E "print_cmd c h p" p
        "log_event (Run (print_cmd c h p)) (log_event (Run (version_cmd c)) w)" q]
    by simp
  show ?case
  proof (cases "attempt_on E h p c")
    case Success
    then show ?thesis using b by (simp add: scan_step del: scan_chrome.simps)
  next
    case (Abort e)
    then show ?thesis using b by (simp add: scan_step del: scan_chrome.simps)
  next
    case Next
    show ?thesis
    proof (cases "run E (version_cmd c) = Exited 0")
      case True
      with Next have "scan_chrome E h p (c # cs) w = scan_chrome E h p cs ?w2"
        by (simp add: scan_step del: scan_chrome.simps)
      then show ?thesis
        using Cons.IH [of ?w2] b by auto
    next
      case False
      with Next have "scan_chrome E h p (c # cs) w =
          scan_chrome E h p cs (log_event (Run (version_cmd c)) w)"
        by (simp add: scan_step del: scan_chrome.simps)
      then show ?thesis
        using Cons.IH [of "log_event (Run (version_cmd c)) w"] by auto
    qed
  qed
qed

lemma scan_chrome_is_file:
  "is_file w q \<Longrightarrow> is_file (snd (scan_chrome E h p cs w)) q"
  using scan_chrome_lookup [of E h p cs w q] by (auto simp: is_file_def)

lemma scan_chrome_is_dir:
  "is_dir w q \<Longrightarrow> is_dir (snd (scan_chrome E h p cs w)) q"
  using scan_chrome_lookup [of E h p cs w q] by (auto simp: is_dir_def)

lemma scan_chrome_fst_indep:
  "fst (scan_chrome E h p cs w) = fst (scan_chrome E h p cs w')"
  by (simp add: scan_chrome_result)

subsection \<open>The path beside the input\<close>

lemma suffix_new_name:
  assumes "x \<noteq> []" "CHR ''.'' \<notin> set e" "e \<noteq> []"
  shows "suffix_of (PurePath r (ts @ [x @ CHR ''.'' # e])) = CHR ''.'' # e"
  using assms by (simp add: suffix_of_def name_def Let_def rfind_append_dot)

lemma valid_sibling:
  assumes "valid_path p" "tail p \<noteq> []" "CHR ''/'' \<notin> set ext"
  shows "valid_path (sibling p ext)"
proof -
  have b: "set (butlast (tail p)) \<subseteq> set (tail p)"
    by (auto dest: in_set_butlastD)
  have l: "last (tail p) \<in> set (tail p)"
    using assms(2) by simp
  have s: "CHR ''/'' \<notin> set (stem p)"
    using set_stem [of p] assms(1,2) l by (auto simp: valid_path_def name_def)
  have "stem p \<noteq> []"
    using stem_nonempty [of p] assms(1,2) l by (auto simp: valid_path_def)
  then have d: "stem p @ CHR ''.'' # ext \<noteq> ''.''" "stem p @ CHR ''.'' # ext \<noteq> []"
    by (cases "stem p"; simp)+
  have "\<forall>x \<in> set (butlast (tail p) @ [stem p @ CHR ''.'' # ext]).
      x \<noteq> [] \<and> x \<noteq> ''.'' \<and> CHR ''/'' \<notin> set x"
  proof
    fix x assume "x \<in> set (butlast (tail p) @ [stem p @ CHR ''.'' # ext])"
    then consider "x \<in> set (tail p)" | "x = stem p @ CHR ''.'' # ext"
      using b by auto
    then show "x \<noteq> [] \<and> x \<noteq> ''.'' \<and> CHR ''/'' \<notin> set x"
    proof cases
      case 1
      then show ?thesis using assms(1) by (simp add: valid_path_def)
    next
      case 2
      then show ?thesis using d s assms(3) by simp
    qed
  qed
  moreover have "root p \<in> {'''', ''/'', ''//''}"
    using assms(1) by (simp add: valid_path_def)
  ultimately show ?thesis
    by (simp add: valid_path_def sibling_def)
qed

lemma sibling_facts:
  assumes "valid_path p" "tail p \<noteq> []" "CHR ''.'' \<notin> set ext" "ext \<noteq> []"
  shows "stem (sibling p ext) = stem p" "parent (sibling p ext) = parent p"
    "name (sibling p ext) = stem p @ CHR ''.'' # ext" "suffix_of (sibling p ext) = CHR ''.'' # ext"
proof -
  have "last (tail p) \<in> set (tail p)"
    using assms(2) by simp
  then have n: "stem p \<noteq> []"
    using stem_nonempty [of p] assms(1,2) by (auto simp: valid_path_def)
  show "stem (sibling p ext) = stem p"
    using n assms(3,4) by (simp add: sibling_def stem_new_name)
  show "parent (sibling p ext) = parent p"
    by (simp add: sibling_def parent_def)
  show "name (sibling p ext) = stem p @ CHR ''.'' # ext"
    by (simp add: sibling_def name_def)
  show "suffix_of (sibling p ext) = CHR ''.'' # ext"
    using n assms(3,4) by (simp add: sibling_def suffix_new_name)
qed

lemma with_suffix_sibling:
  "with_suffix p (CHR ''.'' # ext) = Inr q \<Longrightarrow> tail p \<noteq> [] \<and> q = sibling p ext"
  using with_suffix_Inr [of p "CHR ''.'' # ext" q] by (simp add: sibling_def)

subsection \<open>The single-file pipeline\<close>

lemma html_default_Inr:
  assumes "convert_md_to_html E f None h w = (Inr r, w1)"
  shows "tail (Path f) \<noteq> [] \<and> r = str_path (sibling (Path f) ''html'') \<and>
         Path r = sibling (Path f) ''html'' \<and>
         (\<exists>md. lookup w (Path f) = Some (File (Text md)) \<and>
            lookup w1 = (lookup w)(sibling (Path f) ''html'' \<mapsto>
              File (Text (render_document E (Path f) md h)))) \<and>
         is_file w1 (Path r) \<and> is_dir w (parent (Path f))"
proof -
  from html_Inr [OF assms] obtain tgt md where t:
    "map_sum id PathObj (with_suffix (Path f) ''.html'') = Inr tgt" "r = str tgt"
    "lookup w (Path f) = Some (File (Text md))"
    "lookup w1 = (lookup w)(fspath tgt \<mapsto> File (Text (render_document E (Path f) md h)))"
    "is_dir w (parent (fspath tgt))"
    by auto
  from t(1) obtain q where q: "with_suffix (Path f) ''.html'' = Inr q" "tgt = PathObj q"
    by (cases "with_suffix (Path f) ''.html''") auto
  from with_suffix_sibling [OF q(1)] have s: "tail (Path f) \<noteq> []" "q = sibling (Path f) ''html''"
    by simp_all
  have v: "valid_path (sibling (Path f) ''html'')"
    using s(1) by (simp add: valid_sibling valid_Path)
  have p: "parent (sibling (Path f) ''html'') = parent (Path f)"
    using s(1) by (simp add: sibling_facts valid_Path)
  have 1: "r = str_path (sibling (Path f) ''html'')"
    using t(2) q(2) s(2) by simp
  have 2: "Path r = sibling (Path f) ''html''"
    using 1 v by (simp add: Path_str_path)
  have 3: "lookup w1 = (lookup w)(sibling (Path f) ''html'' \<mapsto>
              File (Text (render_document E (Path f) md h)))"
    using t(4) q(2) s(2) by simp
  have 4: "is_file w1 (Path r)"
    using 2 3 by (simp add: is_file_def)
  have 5: "is_dir w (parent (Path f))"
    using t(5) q(2) s(2) p by simp
  from s(1) 1 2 t(3) 3 4 5 show ?thesis by blast
qed

lemma pdf_unfold:
  assumes "(case out of None \<Rightarrow> map_sum id PathObj (with_suffix (Path f) ''.pdf'')
                      | Some s \<Rightarrow> Inr (Str s)) = Inr tgt"
    and "convert_md_to_html E f None hdr w = (Inr h, w1)"
    and "html_to_pdf_chrome E h (str tgt) w1 = (Inr b, w2)"
  shows "convert_md_to_pdf E f out hdr w =
     (if b then (Inr (str tgt), snd (os_unlink (Path h) w2))
      else (Inr h,
            log_event (OpenBrowser (''file://'' @ str_path (absolute E (Path h))))
              (log_event (Print (PdfHint h)) (log_event (Print (ChromeNotFound h)) w2))))"
  using assms by (simp add: convert_md_to_pdf_def Let_def)

lemma requested_pdf_target:
  assumes "(case out of None \<Rightarrow> map_sum id PathObj (with_suffix (Path f) ''.pdf'')
                      | Some s \<Rightarrow> Inr (Str s)) = Inr tgt"
  shows "str tgt = requested_pdf f out"
proof (cases out)
  case None
  with assms obtain q where "with_suffix (Path f) ''.pdf'' = Inr q" "tgt = PathObj q"
    by (cases "with_suffix (Path f) ''.pdf''") auto
  with None show ?thesis by (simp add: requested_pdf_def)
next
  case (Some s)
  with assms show ?thesis by (auto simp: requested_pdf_def)
qed

lemma pdf_Inr:
  assumes "convert_md_to_pdf E f out hdr w = (Inr r, w')"
  shows "\<exists>h w1 b w2. convert_md_to_html E f None hdr w = (Inr h, w1) \<and>
           html_to_pdf_chrome E h (requested_pdf f out) w1 = (Inr b, w2) \<and>
           (if b then r = requested_pdf f out \<and> w' = snd (os_unlink (Path h) w2)
            else r = h \<and> lookup w' = lookup w2)"
proof -
  let ?t = "case out of None \<Rightarrow> map_sum id PathObj (with_suffix (Path f) ''.pdf'')
                      | Some s \<Rightarrow> Inr (Str s)"
  obtain tgt where tgt: "?t = Inr tgt"
  proof (cases ?t)
    case (Inl e)
    then have "convert_md_to_pdf E f out hdr w = (Inl (Lib e), w)"
      by (simp add: convert_md_to_pdf_def Let_def)
    with assms show ?thesis by simp
  next
    case (Inr x)
    then show ?thesis using that by blast
  qed
  obtain rh w1 where rh: "convert_md_to_html E f None hdr w = (rh, w1)"
    by (cases "convert_md_to_html E f None hdr w")
  obtain h where h: "rh = Inr h"
  proof (cases rh)
    case (Inl e)
    then have "convert_md_to_pdf E f out hdr w = (Inl e, w1)"
      using tgt rh by (simp add: convert_md_to_pdf_def Let_def)
    with assms show ?thesis by simp
  next
    case (Inr x)
    then show ?thesis using that by blast
  qed
  obtain rs w2 where rs: "html_to_pdf_chrome E h (str tgt) w1 = (rs, w2)"
    by (cases "html_to_pdf_chrome E h (str tgt) w1")
  obtain b where b: "rs = Inr b"
  proof (cases rs)
    case (Inl e)
    then have "convert_md_to_pdf E f out hdr w = (Inl e, w2)"
      using tgt rh h rs by (simp add: convert_md_to_pdf_def Let_def)
    with assms show ?thesis by simp
  next
    case (Inr x)
    then show ?thesis using that by blast
  qed
  have q: "str tgt = requested_pdf f out"
    by (rule requested_pdf_target [OF tgt])
  have u: "convert_md_to_pdf E f out hdr w =
     (if b then (Inr (str tgt), snd (os_unlink (Path h) w2))
      else (Inr h,
            log_event (OpenBrowser (''file://'' @ str_path (absolute E (Path h))))
              (log_event (Print (PdfHint h)) (log_event (Print (ChromeNotFound h)) w2))))"
    using pdf_unfold [OF tgt] rh h rs b by simp
  have "if b then r = requested_pdf f out \<and> w' = snd (os_unlink (Path h) w2)
            else r = h \<and> lookup w' = lookup w2"
    using u assms q by (cases b) auto
  moreover have "convert_md_to_html E f None hdr w = (Inr h, w1)"
    using rh h by simp
  moreover have "html_to_pdf_chrome E h (requested_pdf f out) w1 = (Inr b, w2)"
    using rs b q by simp
  ultimately show ?thesis by blast
qed



subsection \<open>Stems of the paths that a batch asks for\<close>

lemma Path_single:
  assumes "s \<noteq> []" "s \<noteq> ''.''" "CHR ''/'' \<notin> set s"
  shows "Path s = PurePath [] [s]"
proof -
  have "hd s \<noteq> CHR ''/''"
    using assms(1,3) by (cases s) auto
  then show ?thesis
    using assms by (simp add: Path_def split_sep_no_sep root_of_no_slash)
qed

lemma joinpath_single:
  assumes "s \<noteq> []" "s \<noteq> ''.''" "CHR ''/'' \<notin> set s"
  shows "joinpath p s = PurePath (root p) (tail p @ [s])"
  using Path_single [OF assms] by (simp add: joinpath_def)

lemma stem_component:
  assumes "valid_path p" "tail p \<noteq> []"
  shows "stem p \<noteq> []" "CHR ''/'' \<notin> set (stem p)"
proof -
  have l: "last (tail p) \<in> set (tail p)"
    using assms(2) by simp
  show "stem p \<noteq> []"
    using stem_nonempty [of p] assms l by (auto simp: valid_path_def)
  show "CHR ''/'' \<notin> set (stem p)"
    using set_stem [of p] assms l by (auto simp: valid_path_def name_def)
qed

lemma mirrored_output:
  assumes "valid_path md" "tail md \<noteq> []" "valid_path out" "CHR ''.'' \<notin> set ext" "ext \<noteq> []"
    "CHR ''/'' \<notin> set ext"
  shows "Path (str_path (joinpath out (stem md @ CHR ''.'' # ext))) =
           PurePath (root out) (tail out @ [stem md @ CHR ''.'' # ext])"
    and "stem (Path (str_path (joinpath out (stem md @ CHR ''.'' # ext)))) = stem md"
proof -
  let ?s = "stem md @ CHR ''.'' # ext"
  from stem_component [OF assms(1,2)] have c: "stem md \<noteq> []" "CHR ''/'' \<notin> set (stem md)" .
  have s: "?s \<noteq> []" "?s \<noteq> ''.''" "CHR ''/'' \<notin> set ?s"
    using c assms(6) by (cases "stem md"; simp)+
  have j: "joinpath out ?s = PurePath (root out) (tail out @ [?s])"
    by (rule joinpath_single [OF s])
  have "valid_path (PurePath (root out) (tail out @ [?s]))"
    using assms(3) s by (auto simp: valid_path_def)
  then show "Path (str_path (joinpath out ?s)) = PurePath (root out) (tail out @ [?s])"
    using j by (simp add: Path_str_path)
  then show "stem (Path (str_path (joinpath out ?s))) = stem md"
    using c(1) assms(4,5) by (simp add: stem_new_name)
qed

lemma html_explicit_Inr:
  "convert_md_to_html E f (Some s) h w = (Inr r, w1) \<Longrightarrow> r = s"
  using html_Inr [of E f "Some s" h w r w1] by auto

lemma convert_one_stem:
  assumes "valid_path md" "tail md \<noteq> []" "valid_path out"
    and "fst (convert_one E out t h md w0) = Inr r"
  shows "stem (Path r) = stem md"
proof (cases t)
  case False
  obtain w1 where "convert_md_to_html E (str_path md)
      (Some (str_path (joinpath out (stem md @ ''.html'')))) h w0 = (Inr r, w1)"
    using assms(4) False
    by (cases "convert_md_to_html E (str_path md)
      (Some (str_path (joinpath out (stem md @ ''.html'')))) h w0") (simp add: convert_one_def)
  then have "r = str_path (joinpath out (stem md @ ''.html''))"
    by (rule html_explicit_Inr)
  then show ?thesis
    using mirrored_output(2) [OF assms(1,2,3), of "''html''"] by simp
next
  case True
  let ?o = "str_path (joinpath out (stem md @ ''.pdf''))"
  obtain w1 where c: "convert_md_to_pdf E (str_path md) (Some ?o) h w0 = (Inr r, w1)"
    using assms(4) True
    by (cases "convert_md_to_pdf E (str_path md) (Some ?o) h w0") (simp add: convert_one_def)
  from pdf_Inr [OF c] obtain hf wa b wb where p:
    "convert_md_to_html E (str_path md) None h w0 = (Inr hf, wa)"
    "if b then r = requested_pdf (str_path md) (Some ?o) \<and> w1 = snd (os_unlink (Path hf) wb)
     else r = hf \<and> lookup w1 = lookup wb"
    by blast
  show ?thesis
  proof (cases b)
    case True
    with p(2) have "r = ?o" by (simp add: requested_pdf_def)
    then show ?thesis
      using mirrored_output(2) [OF assms(1,2,3), of "''pdf''"] by simp
  next
    case False
    with p(2) have "r = hf" by simp
    moreover from html_default_Inr [OF p(1)]
    have "Path hf = sibling (Path (str_path md)) ''html''" by blast
    ultimately show ?thesis
      using assms(1,2) by (simp add: Path_str_path sibling_facts)
  qed
qed

lemma glob_valid:
  "glob E d pattern w = Inr ms \<Longrightarrow> \<forall>p \<in> set ms. valid_path p \<and> tail p \<noteq> []"
  by (auto simp: glob_def split: if_splits)

lemma resolve_output_dir_valid:
  "resolve_output_dir (Path d) od w = (Inr out, w1) \<Longrightarrow> valid_path out"
  by (auto simp: resolve_output_dir_def valid_Path split: option.splits prod.splits sum.splits)

subsection \<open>Titles\<close>

lemma to_upper_is_upper: "is_lower c \<Longrightarrow> is_upper (to_upper c)"
proof -
  assume l: "is_lower c"
  then have "(of_char c :: nat) - 32 < 256"
    unfolding is_lower_def by linarith
  then have "((of_char c :: nat) - 32) mod 256 = of_char c - 32"
    by (rule mod_less)
  with l show ?thesis
    unfolding is_lower_def is_upper_def to_upper_def by (simp add: is_lower_def) arith
qed

lemma to_lower_is_lower: "is_upper c \<Longrightarrow> is_lower (to_lower c)"
proof -
  assume u: "is_upper c"
  then have "((of_char c :: nat) + 32) mod 256 = of_char c + 32"
    by (simp add: is_upper_def)
  with u show ?thesis
    by (simp add: is_lower_def is_upper_def to_lower_def)
qed









lemma html_written:
  assumes "convert_md_to_html E f out h w = (Inr r, w1)"
  shows "\<exists>md. lookup w (Path f) = Some (File (Text md)) \<and>
           lookup w1 (Path r) = Some (File (Text (render_document E (Path f) md h)))"
proof -
  from html_Inr [OF assms] obtain tgt md where t:
    "(case out of None \<Rightarrow> map_sum id PathObj (with_suffix (Path f) ''.html'')
                | Some s \<Rightarrow> Inr (Str s)) = Inr tgt" "r = str tgt"
    "lookup w (Path f) = Some (File (Text md))"
    "lookup w1 = (lookup w)(fspath tgt \<mapsto> File (Text (render_document E (Path f) md h)))"
    by auto
  have "Path r = fspath tgt"
  proof (cases out)
    case None
    with assms html_default_Inr [of E f h w r w1] have "Path r = sibling (Path f) ''html''"
      by blast
    moreover from None t(1) obtain q where "with_suffix (Path f) ''.html'' = Inr q" "tgt = PathObj q"
      by (cases "with_suffix (Path f) ''.html''") auto
    ultimately show ?thesis
      using with_suffix_sibling [of "Path f" "''html''" q] by simp
  next
    case (Some s)
    with t(1,2) show ?thesis by auto
  qed
  with t(3,4) show ?thesis by simp
qed


subsection \<open>Making directories\<close>

lemma wf_world_lookup:
  "wf_world w = (\<forall>p. lookup w p \<noteq> None \<longrightarrow> tail p \<noteq> [] \<longrightarrow> is_dir w (parent p))"
proof -
  have "lookup w = map_of (fs w)"
    by (simp add: lookup_def fun_eq_iff)
  then have "fst ` set (fs w) = dom (lookup w)"
    by (simp add: dom_map_of_conv_image_fst)
  then have "(\<forall>p \<in> fst ` set (fs w). tail p \<noteq> [] \<longrightarrow> is_dir w (parent p)) =
      (\<forall>p. lookup w p \<noteq> None \<longrightarrow> tail p \<noteq> [] \<longrightarrow> is_dir w (parent p))"
    by (auto simp: dom_def)
  then show ?thesis
    by (simp add: wf_world_def list_all_iff)
qed

lemma os_mkdir_Inr:
  "os_mkdir p w = (Inr u, w1) \<Longrightarrow>
   lookup w1 = (lookup w)(p \<mapsto> Dir) \<and> lookup w p = None \<and> is_dir w (parent p) \<and>
   events w1 = events w"
  by (auto simp: os_mkdir_def lookup_def is_dir_def update_conv' split: option.splits node.splits)

lemma os_mkdir_Inl: "os_mkdir p w = (Inl e, w1) \<Longrightarrow> w1 = w"
  by (auto simp: os_mkdir_def split: option.splits node.splits)

lemma os_mkdir_wf:
  assumes "wf_world w" "os_mkdir p w = (r, w1)"
  shows "wf_world w1"
proof (cases r)
  case (Inl e)
  with assms os_mkdir_Inl show ?thesis by blast
next
  case (Inr u)
  with assms(2) os_mkdir_Inr [of p w u w1] have
    l: "lookup w1 = (lookup w)(p \<mapsto> Dir)" and d: "is_dir w (parent p)"
    by simp_all
  show ?thesis
    unfolding wf_world_lookup
  proof (intro allI impI)
    fix q assume q: "lookup w1 q \<noteq> None" "tail q \<noteq> []"
    have "is_dir w (parent q)"
    proof (cases "q = p")
      case True
      with d show ?thesis by simp
    next
      case False
      with q l assms(1) show ?thesis
        by (auto simp: wf_world_lookup)
    qed
    then show "is_dir w1 (parent q)"
      using l by (auto simp: is_dir_def)
  qed
qed

lemma mkdir_unfold:
  "mkdir parents p w =
     (case os_mkdir p w of
        (Inr u, w1) \<Rightarrow> (Inr u, w1)
      | (Inl e, w1) \<Rightarrow>
          if e = FileNotFoundError then
            (if \<not> parents \<or> parent p = p then (Inl e, w1)
             else (case mkdir True (parent p) w1 of
                     (Inl e2, w2) \<Rightarrow> (Inl e2, w2)
                   | (Inr u, w2) \<Rightarrow> mkdir False p w2))
          else if is_dir w1 p then (Inr (), w1)
          else (Inl e, w1))"
  by (rule mkdir.simps)

lemma mkdir_Inr_is_dir: "mkdir parents p w = (Inr u, w1) \<Longrightarrow> is_dir w1 p"
proof (induction parents p w arbitrary: u w1 rule: mkdir.induct)
  case (1 parents p w)
  obtain r0 w0 where o: "os_mkdir p w = (r0, w0)"
    by (cases "os_mkdir p w")
  from "1.prems" have pr:
    "(case os_mkdir p w of
        (Inr u, w1) \<Rightarrow> (Inr u, w1)
      | (Inl e, w1) \<Rightarrow>
          if e = FileNotFoundError then
            (if \<not> parents \<or> parent p = p then (Inl e, w1)
             else (case mkdir True (parent p) w1 of
                     (Inl e2, w2) \<Rightarrow> (Inl e2, w2)
                   | (Inr u, w2) \<Rightarrow> mkdir False p w2))
          else if is_dir w1 p then (Inr (), w1)
          else (Inl e, w1)) = (Inr u, w1)"
    by (simp only: mkdir_unfold [of parents p w, symmetric])
  show ?case
  proof (cases r0)
    case (Inr u0)
    with o pr have "w1 = w0" by simp
    moreover from o Inr os_mkdir_Inr [of p w u0 w0] have "is_dir w0 p"
      by (simp add: is_dir_def)
    ultimately show ?thesis by simp
  next
    case (Inl e)
    show ?thesis
    proof (cases "e = FileNotFoundError")
      case False
      with o Inl pr show ?thesis
        by (simp split: if_splits)
    next
      case True
      show ?thesis
      proof (cases "\<not> parents \<or> parent p = p")
        case True
        with \<open>e = FileNotFoundError\<close> o Inl pr show ?thesis
          by simp
      next
        case False
        obtain r2 w2 where m: "mkdir True (parent p) w0 = (r2, w2)"
          by (cases "mkdir True (parent p) w0")
        show ?thesis
        proof (cases r2)
          case (Inl e2)
          with m False \<open>e = FileNotFoundError\<close> o \<open>r0 = Inl e\<close> pr show ?thesis
            by simp
        next
          case (Inr u2)
          with m False \<open>e = FileNotFoundError\<close> o \<open>r0 = Inl e\<close> pr
          have "mkdir False p w2 = (Inr u, w1)"
            by simp
          with "1.IH"(2) [OF o [symmetric] \<open>r0 = Inl e\<close> \<open>e = FileNotFoundError\<close> False
              m [symmetric] Inr]
          show ?thesis by blast
        qed
      qed
    qed
  qed
qed

lemma os_mkdir_keeps:
  assumes "os_mkdir p w = (r, w1)"
  shows "(wf_world w \<longrightarrow> wf_world w1) \<and> (\<forall>q. is_dir w q \<longrightarrow> is_dir w1 q)"
proof -
  have "\<forall>q. is_dir w q \<longrightarrow> is_dir w1 q"
  proof (cases r)
    case (Inl e)
    with assms os_mkdir_Inl show ?thesis by blast
  next
    case (Inr u)
    with assms os_mkdir_Inr [of p w u w1] show ?thesis
      by (auto simp: is_dir_def)
  qed
  with os_mkdir_wf [OF _ assms] show ?thesis by blast
qed

lemma mkdir_keeps:
  "mkdir parents p w = (r, w1) \<Longrightarrow>
   (wf_world w \<longrightarrow> wf_world w1) \<and> (\<forall>q. is_dir w q \<longrightarrow> is_dir w1 q)"
proof (induction parents p w arbitrary: r w1 rule: mkdir.induct)
  case (1 parents p w)
  obtain r0 w0 where o: "os_mkdir p w = (r0, w0)"
    by (cases "os_mkdir p w")
  from os_mkdir_keeps [OF o] have k0:
    "wf_world w \<longrightarrow> wf_world w0" "\<forall>q. is_dir w q \<longrightarrow> is_dir w0 q"
    by blast+
  from "1.prems" have pr:
    "(case os_mkdir p w of
        (Inr u, w1) \<Rightarrow> (Inr u, w1)
      | (Inl e, w1) \<Rightarrow>
          if e = FileNotFoundError then
            (if \<not> parents \<or> parent p = p then (Inl e, w1)
             else (case mkdir True (parent p) w1 of
                     (Inl e2, w2) \<Rightarrow> (Inl e2, w2)
                   | (Inr u, w2) \<Rightarrow> mkdir False p w2))
          else if is_dir w1 p then (Inr (), w1)
          else (Inl e, w1)) = (r, w1)"
    by (simp only: mkdir_unfold [of parents p w, symmetric])
  show ?case
  proof (cases r0)
    case (Inr u0)
    with o pr have "w1 = w0" by simp
    with k0 show ?thesis by simp
  next
    case (Inl e)
    show ?thesis
    proof (cases "e = FileNotFoundError")
      case False
      with o Inl pr have "w1 = w0"
        by (simp split: if_splits)
      with k0 show ?thesis by simp
    next
      case True
      show ?thesis
      proof (cases "\<not> parents \<or> parent p = p")
        case True
        with \<open>e = FileNotFoundError\<close> o Inl pr have "w1 = w0"
          by simp
        with k0 show ?thesis by simp
      next
        case False
        obtain r2 w2 where m: "mkdir True (parent p) w0 = (r2, w2)"
          by (cases "mkdir True (parent p) w0")
        from "1.IH"(1) [OF o [symmetric] \<open>r0 = Inl e\<close> \<open>e = FileNotFoundError\<close> False m]
        have k2: "wf_world w0 \<longrightarrow> wf_world w2" "\<forall>q. is_dir w0 q \<longrightarrow> is_dir w2 q"
          by blast+
        show ?thesis
        proof (cases r2)
          case (Inl e2)
          with m False \<open>e = FileNotFoundError\<close> o \<open>r0 = Inl e\<close> pr have "w1 = w2"
            by simp
          with k0 k2 show ?thesis by simp
        next
          case (Inr u2)
          with m False \<open>e = FileNotFoundError\<close> o \<open>r0 = Inl e\<close> pr
          have "mkdir False p w2 = (r, w1)"
            by simp
          from "1.IH"(2) [OF o [symmetric] \<open>r0 = Inl e\<close> \<open>e = FileNotFoundError\<close> False
              m [symmetric] Inr this]
          have "wf_world w2 \<longrightarrow> wf_world w1" "\<forall>q. is_dir w2 q \<longrightarrow> is_dir w1 q"
            by blast+
          with k0 k2 show ?thesis by simp
        qed
      qed
    qed
  qed
qed

lemma wf_parent: "wf_world w \<Longrightarrow> is_dir w p \<Longrightarrow> tail p \<noteq> [] \<Longrightarrow> is_dir w (parent p)"
  by (auto simp: wf_world_lookup is_dir_def)

lemma wf_take:
  assumes "wf_world w" "is_dir w (PurePath r t)"
  shows "is_dir w (PurePath r (take (length t - k) t))"
proof (induction k)
  case 0
  with assms(2) show ?case by simp
next
  case (Suc k)
  show ?case
  proof (cases "length t - k = 0")
    case True
    with Suc show ?thesis by simp
  next
    case False
    then have n: "take (length t - k) t \<noteq> []" by auto
    have "butlast (take (length t - k) t) = take (length t - Suc k) t"
      using False by (simp add: butlast_take)
    with wf_parent [OF assms(1) Suc] n show ?thesis
      by (simp add: parent_def)
  qed
qed

lemma wf_ancestors:
  assumes "wf_world w" "is_dir w p"
  shows "\<forall>q \<in> set (ancestors p). is_dir w q"
proof
  fix q assume "q \<in> set (ancestors p)"
  then have "q \<in> (\<lambda>k. PurePath (root p) (take k (tail p))) ` {0..<Suc (length (tail p))}"
    by (simp only: ancestors_def set_map set_upt)
  then obtain k where k0: "k \<in> {0..<Suc (length (tail p))}"
      and k1: "q = PurePath (root p) (take k (tail p))"
    by blast
  from k0 have "k \<le> length (tail p)" by simp
  note k = this k1
  have "is_dir w (PurePath (root p) (tail p))"
    using assms(2) by simp
  from wf_take [OF assms(1) this, of "length (tail p) - k"] k show "is_dir w q"
    by simp
qed

subsection \<open>Directories stay, and where a batch writes\<close>

lemma store_is_dir: "is_dir w q \<Longrightarrow> is_dir (snd (store p d w)) q"
  using store_lookup [of p d w q] by (auto simp: is_dir_def)

lemma os_unlink_is_dir: "is_dir w q \<Longrightarrow> is_dir (snd (os_unlink p w)) q"
  by (auto simp: os_unlink_def is_dir_def lookup_def delete_conv' split: option.splits node.splits)

lemma html_is_dir:
  assumes "convert_md_to_html E f out h w = (r, w1)" "is_dir w q"
  shows "is_dir w1 q"
proof (cases r)
  case (Inl e)
  with assms(1) html_error_cases [of E f out h w e w1] have "fs w1 = fs w"
    by auto
  with assms(2) show ?thesis
    by (simp add: is_dir_def lookup_def)
next
  case (Inr x)
  with assms(1) have a: "MARKDOWN_AVAILABLE E" "path_exists w (Path f)"
    by (auto simp: convert_md_to_html_def Let_def split: if_splits)
  with assms(1) Inr obtain tgt where t:
    "(case out of None \<Rightarrow> map_sum id PathObj (with_suffix (Path f) ''.html'')
                | Some s \<Rightarrow> Inr (Str s)) = Inr tgt"
    by (auto simp: convert_md_to_html_def Let_def split: sum.splits)
  with assms(1) Inr a obtain md wr where rd: "open_read (Path f) w = (Inr md, wr)"
    by (auto simp: convert_md_to_html_def Let_def split: sum.splits prod.splits)
  with assms(1) Inr a t have s:
    "store (fspath tgt) (Text (render_document E (Path f) md h)) wr = (Inr (), w1)"
    by (auto simp: convert_md_to_html_def Let_def open_write_def split: sum.splits prod.splits)
  from open_read_Inr [OF rd] assms(2) have "is_dir wr q"
    by (simp add: is_dir_def)
  from store_is_dir [OF this, of "fspath tgt" "Text (render_document E (Path f) md h)"] s
  show ?thesis by simp
qed

lemma log_event_is_dir [simp]: "is_dir (log_event e w) q = is_dir w q"
  by (simp add: is_dir_def)

lemma pdf_is_dir:
  assumes "convert_md_to_pdf E f out hdr w = (r, w')" "is_dir w q"
  shows "is_dir w' q"
proof -
  let ?t = "case out of None \<Rightarrow> map_sum id PathObj (with_suffix (Path f) ''.pdf'')
                      | Some s \<Rightarrow> Inr (Str s)"
  show ?thesis
  proof (cases ?t)
    case (Inl e)
    then have "convert_md_to_pdf E f out hdr w = (Inl (Lib e), w)"
      by (simp add: convert_md_to_pdf_def Let_def)
    with assms show ?thesis by simp
  next
    case (Inr tgt)
    obtain rh w1 where rh: "convert_md_to_html E f None hdr w = (rh, w1)"
      by (cases "convert_md_to_html E f None hdr w")
    from html_is_dir [OF rh assms(2)] have d1: "is_dir w1 q" .
    show ?thesis
    proof (cases rh)
      case (Inl e)
      then have "convert_md_to_pdf E f out hdr w = (Inl e, w1)"
        using Inr rh by (simp add: convert_md_to_pdf_def Let_def)
      with assms(1) d1 show ?thesis by simp
    next
      case h: (Inr hf)
      obtain rs w2 where rs: "html_to_pdf_chrome E hf (str tgt) w1 = (rs, w2)"
        by (cases "html_to_pdf_chrome E hf (str tgt) w1")
      have d2: "is_dir w2 q"
        using scan_chrome_is_dir [OF d1, of E hf "str tgt" chrome_paths] rs
        by (simp add: html_to_pdf_chrome_def)
      show ?thesis
      proof (cases rs)
        case (Inl e)
        then have "convert_md_to_pdf E f out hdr w = (Inl e, w2)"
          using Inr rh h rs by (simp add: convert_md_to_pdf_def Let_def)
        with assms(1) d2 show ?thesis by simp
      next
        case b: (Inr b)
        from pdf_unfold [OF Inr] rh h rs b have
          "convert_md_to_pdf E f out hdr w =
             (if b then (Inr (str tgt), snd (os_unlink (Path hf) w2))
              else (Inr hf,
                log_event (OpenBrowser (''file://'' @ str_path (absolute E (Path hf))))
                  (log_event (Print (PdfHint hf)) (log_event (Print (ChromeNotFound hf)) w2))))"
          by simp
        with assms(1) d2 os_unlink_is_dir [OF d2, of "Path hf"] show ?thesis
          by (cases b) auto
      qed
    qed
  qed
qed

lemma convert_one_is_dir:
  "convert_one E out t h md w = (r, w1) \<Longrightarrow> is_dir w q \<Longrightarrow> is_dir w1 q"
  by (cases t) (auto simp: convert_one_def dest: pdf_is_dir html_is_dir)

lemma batch_loop_is_dir:
  "is_dir w q \<Longrightarrow> is_dir (snd (batch_loop E out t h files acc w)) q"
proof (induction files arbitrary: acc w)
  case Nil
  then show ?case by simp
next
  case (Cons f files)
  obtain r w1 where c: "convert_one E out t h f w = (r, w1)"
    by (cases "convert_one E out t h f w")
  from convert_one_is_dir [OF c Cons.prems] have "is_dir w1 q" .
  then show ?case
    using c Cons.IH by (cases r) simp_all
qed

lemma convert_one_place:
  assumes "valid_path md" "tail md \<noteq> []" "valid_path out"
    and "fst (convert_one E out t h md w0) = Inr r"
  shows "parent (Path r) = out \<or> t \<and> suffix_of (Path r) = ''.html''"
proof (cases t)
  case False
  obtain w1 where "convert_md_to_html E (str_path md)
      (Some (str_path (joinpath out (stem md @ ''.html'')))) h w0 = (Inr r, w1)"
    using assms(4) False
    by (cases "convert_md_to_html E (str_path md)
      (Some (str_path (joinpath out (stem md @ ''.html'')))) h w0") (simp add: convert_one_def)
  then have "r = str_path (joinpath out (stem md @ ''.html''))"
    by (rule html_explicit_Inr)
  then show ?thesis
    using mirrored_output(1) [OF assms(1,2,3), of "''html''"] by (simp add: parent_def)
next
  case True
  let ?o = "str_path (joinpath out (stem md @ ''.pdf''))"
  obtain w1 where c: "convert_md_to_pdf E (str_path md) (Some ?o) h w0 = (Inr r, w1)"
    using assms(4) True
    by (cases "convert_md_to_pdf E (str_path md) (Some ?o) h w0") (simp add: convert_one_def)
  from pdf_Inr [OF c] obtain hf wa b wb where p:
    "convert_md_to_html E (str_path md) None h w0 = (Inr hf, wa)"
    "if b then r = requested_pdf (str_path md) (Some ?o) \<and> w1 = snd (os_unlink (Path hf) wb)
     else r = hf \<and> lookup w1 = lookup wb"
    by blast
  show ?thesis
  proof (cases b)
    case True
    with p(2) have "r = ?o" by (simp add: requested_pdf_def)
    then show ?thesis
      using mirrored_output(1) [OF assms(1,2,3), of "''pdf''"] by (simp add: parent_def)
  next
    case False
    with p(2) have "r = hf" by simp
    moreover from html_default_Inr [OF p(1)]
    have "Path hf = sibling (Path (str_path md)) ''html''" by blast
    ultimately show ?thesis
      using assms(1,2) \<open>t\<close> by (simp add: Path_str_path sibling_facts)
  qed
qed

lemma list_all2_right: "list_all2 (\<lambda>x y. Q y) xs ys \<Longrightarrow> \<forall>y \<in> set ys. Q y"
  by (induction xs ys rule: list_all2_induct) simp_all

lemma resolve_output_dir_cases:
  assumes "resolve_output_dir (Path d) od w = (Inr out, w1)"
  shows "out = (case od of None \<Rightarrow> Path d | Some x \<Rightarrow> Path x) \<and>
         (\<forall>q. is_dir w q \<longrightarrow> is_dir w1 q) \<and>
         (od \<noteq> None \<longrightarrow> is_dir w1 out \<and> (wf_world w \<longrightarrow> wf_world w1))"
proof (cases od)
  case None
  with assms show ?thesis by (simp add: resolve_output_dir_def)
next
  case (Some x)
  obtain r0 w0 where m: "mkdir True (Path x) w = (r0, w0)"
    by (cases "mkdir True (Path x) w")
  with assms Some obtain u where u: "r0 = Inr u" "out = Path x" "w1 = w0"
    by (cases r0) (auto simp: resolve_output_dir_def)
  from mkdir_Inr_is_dir [of True "Path x" w u w0] mkdir_keeps [OF m] m u Some
  show ?thesis by auto
qed

lemma ev_batch_out:
  "fst (batch_convert example_env ''docs'' (Some ''out/a'') False ''*.md'' True example_world)
     = Inr [''out/a/my_notes.html'', ''out/a/z.html'']"
  by (simp add: eval_defs mkdir_unfold)

subsection \<open>Counting the occurrences of a phrase\<close>

lemma prefix_past_end:
  assumes "A \<noteq> []" "last A \<notin> set n"
  shows "prefix n (A @ R) = prefix n A"
proof
  assume "prefix n (A @ R)"
  then consider "prefix n A" | us where "n = A @ us"
    by (auto simp: prefix_append)
  then show "prefix n A"
  proof cases
    case 1
    then show ?thesis .
  next
    case 2
    with assms have False by auto
    then show ?thesis ..
  qed
next
  assume "prefix n A"
  then show "prefix n (A @ R)" by (rule prefix_prefix)
qed

lemma occ_end:
  "n \<noteq> [] \<Longrightarrow> A \<noteq> [] \<Longrightarrow> last A \<notin> set n \<Longrightarrow>
   occurrences n (A @ R) = occurrences n A + occurrences n R"
proof (induction A)
  case Nil
  then show ?case by simp
next
  case (Cons a A)
  have n: "n \<noteq> []"
    using Cons.prems by simp
  show ?case
  proof (cases "A = []")
    case True
    with Cons.prems have "a \<notin> set n" by simp
    then have "\<not> prefix n (a # R)" "\<not> prefix n [a]"
      using n by (cases n; auto)+
    with True n show ?thesis by simp
  next
    case False
    with Cons.prems have l: "last A \<notin> set n" by simp
    have "prefix n ((a # A) @ R) = prefix n (a # A)"
      using Cons.prems by (intro prefix_past_end) simp_all
    with Cons.IH [OF n False l] show ?thesis by simp
  qed
qed

lemma occ_css_G: "occurrences ''Generated on'' css_template = 0"
  unfolding css_template_def
  by (simp add: occ_end del: append.simps append_assoc)

lemma occ_css_C: "occurrences ''Converted with Universal Markdown Converter'' css_template = 0"
  unfolding css_template_def
  by (simp add: occ_end del: append.simps append_assoc)

lemma occ_skip:
  "n \<noteq> [] \<Longrightarrow> hd n \<notin> set A \<Longrightarrow> occurrences n (A @ R) = occurrences n R"
proof (induction A)
  case Nil
  show ?case by simp
next
  case (Cons a A)
  then have "\<not> prefix n (a # A @ R)"
    by (cases n) auto
  with Cons show ?case by simp
qed

lemma occ_none: "n \<noteq> [] \<Longrightarrow> hd n \<notin> set A \<Longrightarrow> occurrences n A = 0"
  using occ_skip [of n A "[]"] by simp

lemma occ_var:
  assumes "n \<noteq> []" "c \<notin> set n"
  shows "occurrences n (v @ c # R) = occurrences n v + occurrences n (c # R)"
proof (induction v)
  case Nil
  with assms(1) show ?case by simp
next
  case (Cons a v)
  have "prefix n (a # v @ c # R) = prefix n (a # v)"
  proof
    assume "prefix n (a # v @ c # R)"
    then have "prefix n ((a # v) @ c # R)" by simp
    then consider "prefix n (a # v)" | us where "n = (a # v) @ us" "prefix us (c # R)" "us \<noteq> []"
      unfolding prefix_append by (cases "n = a # v") auto
    then show "prefix n (a # v)"
    proof cases
      case 1
      then show ?thesis .
    next
      case 2
      then have "hd us = c" by (cases us) auto
      with 2 have "c \<in> set n" by (cases us) auto
      with assms(2) show ?thesis by simp
    qed
  next
    assume "prefix n (a # v)"
    then have "prefix n ((a # v) @ c # R)" by (rule prefix_prefix)
    then show "prefix n (a # v @ c # R)" by simp
  qed
  with Cons show ?case by simp
qed

lemma occ_infix: "n \<noteq> [] \<Longrightarrow> occurrences n s \<noteq> 0 \<Longrightarrow> \<exists>a c. s = a @ n @ c"
proof (induction s)
  case Nil
  then show ?case by simp
next
  case (Cons x s)
  show ?case
  proof (cases "prefix n (x # s)")
    case True
    then obtain c where "x # s = n @ c" by (auto simp: prefix_def)
    then have "x # s = [] @ n @ c" by simp
    then show ?thesis by blast
  next
    case False
    with Cons.prems have "occurrences n s \<noteq> 0" by simp
    with Cons.IH Cons.prems(1) obtain a c where "s = a @ n @ c" by blast
    then have "x # s = (x # a) @ n @ c" by simp
    then show ?thesis by blast
  qed
qed

lemma length_title_from [simp]: "length (title_from b s) = length s"
  by (induction s arbitrary: b) simp_all

lemma title_from_nth:
  "i < length s \<Longrightarrow>
   title_from b s ! i =
     (if (if i = 0 then b else is_cased (s ! (i - 1))) then to_lower (s ! i) else to_upper (s ! i))"
proof (induction s arbitrary: b i)
  case Nil
  then show ?case by simp
next
  case (Cons x s)
  show ?case
  proof (cases i)
    case 0
    then show ?thesis by simp
  next
    case (Suc j)
    with Cons.prems have "j < length s" by simp
    from Cons.IH [OF this, of "is_cased x"] Suc show ?thesis
      by (cases j) simp_all
  qed
qed

lemma space_uncased: "\<not> is_lower CHR '' ''" "\<not> is_upper CHR '' ''"
  by (simp_all add: is_lower_def is_upper_def)

lemma upper_not_lower: "is_upper c \<Longrightarrow> \<not> is_lower c"
  by (simp add: is_lower_def is_upper_def)

lemma to_upper_not_lower: "\<not> is_lower (to_upper c)"
  using to_upper_is_upper [of c] upper_not_lower [of "to_upper c"]
  by (cases "is_lower c") (simp_all add: to_upper_def)

lemma cased_to_space:
  "to_lower c = CHR '' '' \<Longrightarrow> \<not> is_cased c" "to_upper c = CHR '' '' \<Longrightarrow> \<not> is_cased c"
proof -
  assume a: "to_lower c = CHR '' ''"
  show "\<not> is_cased c"
  proof (cases "is_upper c")
    case True
    with a to_lower_is_lower [of c] space_uncased show ?thesis by simp
  next
    case False
    with a have "c = CHR '' ''" by (simp add: to_lower_def)
    with space_uncased show ?thesis by (simp add: is_cased_def)
  qed
next
  assume a: "to_upper c = CHR '' ''"
  show "\<not> is_cased c"
  proof (cases "is_lower c")
    case True
    with a to_upper_is_upper [of c] space_uncased show ?thesis by simp
  next
    case False
    with a have "c = CHR '' ''" by (simp add: to_upper_def)
    with space_uncased show ?thesis by (simp add: is_cased_def)
  qed
qed

lemma title_from_space_lower:
  assumes "Suc i < length s" "title_from b s ! i = CHR '' ''"
  shows "\<not> is_lower (title_from b s ! Suc i)"
proof -
  have i: "i < length s" using assms(1) by simp
  have "\<not> is_cased (s ! i)"
    using assms(2) title_from_nth [OF i, of b] cased_to_space [of "s ! i"]
    by (auto split: if_splits)
  then have "title_from b s ! Suc i = to_upper (s ! Suc i)"
    using title_from_nth [OF assms(1), of b] by simp
  then show ?thesis
    by (simp add: to_upper_not_lower)
qed

lemma occ_title:
  assumes "Suc i < length n" "n ! i = CHR '' ''" "is_lower (n ! Suc i)"
  shows "occurrences n (title_from b s) = 0"
proof (rule ccontr)
  assume "occurrences n (title_from b s) \<noteq> 0"
  moreover have "n \<noteq> []" using assms(1) by auto
  ultimately obtain a c where e: "title_from b s = a @ n @ c"
    using occ_infix by blast
  then have l: "length s = length a + length n + length c"
    using length_title_from [of b s] by simp
  have 1: "title_from b s ! (length a + i) = n ! i"
    using e assms(1) by (simp add: nth_append)
  have 2: "title_from b s ! Suc (length a + i) = n ! Suc i"
    using e assms(1) by (simp add: nth_append)
  have "Suc (length a + i) < length s"
    using l assms(1) by simp
  from title_from_space_lower [OF this, of b] 1 2 assms(2,3) show False
    by simp
qed

lemma digit_code: "(of_char (digit k) :: nat) = 48 + k mod 10"
proof -
  have "48 + k mod 10 < (256 :: nat)"
    by (rule less_trans [of _ 58]) simp_all
  then show ?thesis
    by (simp add: digit_def)
qed

lemma digit_not_letter: "digit k \<noteq> CHR ''G''" "digit k \<noteq> CHR ''C''"
proof -
  have "(of_char (digit k) :: nat) \<noteq> of_char CHR ''G''"
    unfolding digit_code by simp
  then show "digit k \<noteq> CHR ''G''" by auto
  have "(of_char (digit k) :: nat) \<noteq> of_char CHR ''C''"
    unfolding digit_code by simp
  then show "digit k \<noteq> CHR ''C''" by auto
qed

lemma letter_not_digit: "CHR ''G'' \<noteq> digit k" "CHR ''C'' \<noteq> digit k"
  using digit_not_letter [of k] by auto

lemma strftime_no_letter: "CHR ''G'' \<notin> set (strftime d)" "CHR ''C'' \<notin> set (strftime d)"
  by (simp_all add: strftime_def letter_not_digit)

subsection \<open>The two phrases in a rendered document\<close>

lemma occ_title_G: "occurrences ''Generated on'' (document_title p) = 0"
  unfolding document_title_def title_def
  by (rule occ_title [of 9]) (simp_all add: is_lower_def)

lemma occ_title_C:
  "occurrences ''Converted with Universal Markdown Converter'' (document_title p) = 0"
  unfolding document_title_def title_def
  by (rule occ_title [of 9]) (simp_all add: is_lower_def)

lemma occ_date_G: "occurrences ''Generated on'' (strftime d @ R) = occurrences ''Generated on'' R"
  by (rule occ_skip) (simp_all add: strftime_no_letter)

lemma occ_date_C:
  "occurrences ''Converted with Universal Markdown Converter'' (strftime d @ R) =
   occurrences ''Converted with Universal Markdown Converter'' R"
  by (rule occ_skip) (simp_all add: strftime_no_letter)

lemma occ_document_G:
  "occurrences ''Generated on'' (render_document E p md h) =
     occurrences ''Generated on'' (markdown_convert E md) + (if h then 1 else 0)"
  by (simp add: render_document_def Let_def html_template_format_def create_header_section_def
      create_footer_section_def occ_var occ_date_G occ_title_G occ_css_G)

lemma occ_document_C:
  "occurrences ''Converted with Universal Markdown Converter'' (render_document E p md h) =
     occurrences ''Converted with Universal Markdown Converter'' (markdown_convert E md) +
     (if h then 1 else 0)"
  by (simp add: render_document_def Let_def html_template_format_def create_header_section_def
      create_footer_section_def occ_var occ_date_C occ_title_C occ_css_C)

section \<open>The order of the checks in the HTML conversion\<close>

text \<open>
  Claim C9.  In \<open>convert_md_to_html\<close> the check for the Markdown engine comes before the check
  that the input exists and before all file input and output: without the engine the call
  raises \<open>DependencyMissing\<close> whether or not the input path exists, with the engine and without
  the input it raises \<open>InputNotFound\<close>, and whenever it raises one of the two the world is
  unchanged: no file has been written and none has been read.
\<close>

theorem convert_md_to_html_checks_before_io:
  "(\<not> MARKDOWN_AVAILABLE E \<longrightarrow>
      convert_md_to_html E input_file output_file include_headers w = (Inl DependencyMissing, w)) \<and>
   (MARKDOWN_AVAILABLE E \<and> \<not> path_exists w (Path input_file) \<longrightarrow>
      convert_md_to_html E input_file output_file include_headers w =
        (Inl (InputNotFound input_file), w)) \<and>
   (convert_md_to_html E input_file output_file include_headers w = (Inl e, w1) \<and>
    (e = DependencyMissing \<or> e = InputNotFound s) \<longrightarrow> w1 = w)"
proof (intro conjI impI)
  assume "\<not> MARKDOWN_AVAILABLE E"
  then show "convert_md_to_html E input_file output_file include_headers w = (Inl DependencyMissing, w)"
    by (simp add: convert_md_to_html_def)
next
  assume "MARKDOWN_AVAILABLE E \<and> \<not> path_exists w (Path input_file)"
  then show "convert_md_to_html E input_file output_file include_headers w =
      (Inl (InputNotFound input_file), w)"
    by (simp add: convert_md_to_html_def)
next
  assume a: "convert_md_to_html E input_file output_file include_headers w = (Inl e, w1) \<and>
    (e = DependencyMissing \<or> e = InputNotFound s)"
  from html_error_cases [of E input_file output_file include_headers w e w1] a
  show "w1 = w" by auto
qed

theorem convert_md_to_html_checks_before_io_witness:
  "\<not> MARKDOWN_AVAILABLE (example_env\<lparr>MARKDOWN_AVAILABLE := False\<rparr>) \<and>
   \<not> path_exists example_world (Path ''docs/missing.md'') \<and>
   convert_md_to_html (example_env\<lparr>MARKDOWN_AVAILABLE := False\<rparr>) ''docs/missing.md'' None True
     example_world = (Inl DependencyMissing, example_world) \<and>
   convert_md_to_html example_env ''docs/missing.md'' None True example_world =
     (Inl (InputNotFound ''docs/missing.md''), example_world)"
  using convert_md_to_html_checks_before_io
      [of "example_env\<lparr>MARKDOWN_AVAILABLE := False\<rparr>" "''docs/missing.md''" None True example_world]
    convert_md_to_html_checks_before_io
      [of example_env "''docs/missing.md''" None True example_world]
  by (simp add: example_env_def example_world_def path_exists_def lookup_def Path_def root_of_def)

section \<open>The scan of the candidate browsers\<close>

text \<open>
  Claim C4 says that any exception during the attempt on a candidate is swallowed and the
  next candidate is tried.  The \<open>except\<close> clause names three classes only.  Here the version
  check of the first candidate raises \<open>PermissionError\<close>: the scan ends with that exception,
  although the second candidate would pass the version check and render with status zero.
\<close>

theorem scan_aborts_counterexample:
  "fst (html_to_pdf_chrome permission_env ''docs/my_notes.html'' ''docs/my_notes.pdf''
         example_world) = Inl (Lib PermissionError) \<and>
   attempt_on permission_env ''docs/my_notes.html'' ''docs/my_notes.pdf'' ''google-chrome''
     = Success"
  by (simp add: html_to_pdf_chrome_def chrome_paths_def permission_env_def example_env_def
      subprocess_run_def version_cmd_def print_cmd_def swallowed_def attempt_on_def)

text \<open>
  Claim C4, amended.  The candidates are tried in the fixed order of \<open>chrome_paths\<close>, and the
  first candidate whose attempt does not pass on to the next one decides the result:
  \<open>True\<close> when its version check exits with status zero and its render does too, the
  exception when one of its two runs raises an exception other than \<open>CalledProcessError\<close>,
  \<open>FileNotFoundError\<close> and \<open>TimeoutExpired\<close>; these three and a non-zero exit status pass
  on to the next candidate, and the result is \<open>False\<close> when every candidate passes on.  The
  version checks that are run are those of the candidates up to the deciding one, in order.
\<close>

theorem html_to_pdf_chrome_first_decisive:
  "fst (html_to_pdf_chrome E html_file pdf_file w) =
     (case find (\<lambda>c. attempt_on E html_file pdf_file c \<noteq> Next) chrome_paths of
        None \<Rightarrow> Inr False
      | Some c \<Rightarrow>
          (case attempt_on E html_file pdf_file c of
             Abort e \<Rightarrow> Inl (Lib e)
           | _ \<Rightarrow> Inr True)) \<and>
   (\<exists>es. events (snd (html_to_pdf_chrome E html_file pdf_file w)) = events w @ es \<and>
         filter is_version_run es =
           map (\<lambda>c. Run (version_cmd c)) (tried E html_file pdf_file chrome_paths))"
  unfolding html_to_pdf_chrome_def
  using scan_chrome_result [of E html_file pdf_file chrome_paths w]
    scan_chrome_events [of E html_file pdf_file chrome_paths w]
  by blast

theorem html_to_pdf_chrome_first_decisive_witness:
  "fst (html_to_pdf_chrome example_env ''docs/my_notes.html'' ''docs/my_notes.pdf'' example_world)
     = Inr False \<and>
   (\<exists>es. events (snd (html_to_pdf_chrome example_env ''docs/my_notes.html''
                        ''docs/my_notes.pdf'' example_world)) = events example_world @ es \<and>
         filter is_version_run es = map (\<lambda>c. Run (version_cmd c)) chrome_paths)"
proof -
  have n: "attempt_on example_env ''docs/my_notes.html'' ''docs/my_notes.pdf'' c = Next" for c
    by (simp add: attempt_on_def example_env_def swallowed_def)
  have t: "tried example_env ''docs/my_notes.html'' ''docs/my_notes.pdf'' cs = cs" for cs
    by (induction cs) (simp_all add: n)
  have f: "find (\<lambda>c. attempt_on example_env ''docs/my_notes.html'' ''docs/my_notes.pdf'' c \<noteq> Next) cs
      = None" for cs
    by (induction cs) (simp_all add: n)
  show ?thesis
    using html_to_pdf_chrome_first_decisive
      [of example_env "''docs/my_notes.html''" "''docs/my_notes.pdf''" example_world]
    by (simp add: t f)
qed

section \<open>The order of the results of a batch\<close>

text \<open>
  Claim C10.  The list returned by \<open>batch_convert\<close> keeps the enumeration order of the matched
  files: it consists of the paths that the single-file pipeline returned, in the order of
  the files they were returned for, with the files that raised left out; so the converted
  files are a subsequence of the matched files, each result is what the pipeline returned for
  its file, and the list is never longer than the list of matched files.
\<close>

theorem batch_convert_preserves_order:
  assumes "batch_convert E input_dir output_dir to_pdf pattern include_headers w = (Inr results, w')"
  shows "\<exists>output_path w1 md_files.
           resolve_output_dir (Path input_dir) output_dir w = (Inr output_path, w1) \<and>
           glob E (Path input_dir) pattern w1 = Inr md_files \<and>
           results = rights (outcomes E output_path to_pdf include_headers md_files w1) \<and>
           length (outcomes E output_path to_pdf include_headers md_files w1) = length md_files \<and>
           length results \<le> length md_files \<and>
           (\<exists>converted. subseq converted md_files \<and>
              list_all2
                (\<lambda>md_file result.
                   \<exists>w0. fst (convert_one E output_path to_pdf include_headers md_file w0) = Inr result)
                converted results)"
proof -
  from batch_convert_Inr [OF assms] obtain output_path w1 md_files where
    p: "path_exists w (Path input_dir)"
       "resolve_output_dir (Path input_dir) output_dir w = (Inr output_path, w1)"
       "glob E (Path input_dir) pattern w1 = Inr md_files"
    by blast
  have r: "results = rights (outcomes E output_path to_pdf include_headers md_files w1)"
    using batch_convert_loop [OF p, of to_pdf include_headers] assms by simp
  have l: "length (outcomes E output_path to_pdf include_headers md_files w1) = length md_files"
    by (rule length_outcomes)
  have le: "length results \<le> length md_files"
    using length_rights_le [of "outcomes E output_path to_pdf include_headers md_files w1"] r l
    by simp
  from outcomes_subseq [of md_files E output_path to_pdf include_headers w1] r
  have "\<exists>converted. subseq converted md_files \<and>
      list_all2
        (\<lambda>md_file result.
           \<exists>w0. fst (convert_one E output_path to_pdf include_headers md_file w0) = Inr result)
        converted results"
    by simp
  with p r l le show ?thesis by blast
qed

theorem batch_convert_preserves_order_witness:
  "\<exists>w'. batch_convert example_env ''docs'' None False ''*.md'' True example_world =
          (Inr [''docs/my_notes.html'', ''docs/z.html''], w') \<and>
        (\<exists>(md_files :: ppath list) converted. length md_files = 3 \<and>
           subseq converted md_files \<and> length converted = 2)"
proof -
  obtain r w' where b: "batch_convert example_env ''docs'' None False ''*.md'' True example_world = (r, w')"
    by (cases "batch_convert example_env ''docs'' None False ''*.md'' True example_world")
  with ev_batch_html have b': "batch_convert example_env ''docs'' None False ''*.md'' True example_world
      = (Inr [''docs/my_notes.html'', ''docs/z.html''], w')"
    by simp
  from batch_convert_preserves_order [OF b'] obtain output_path w1 md_files converted where
    f: "resolve_output_dir (Path ''docs'') None example_world = (Inr output_path, w1)"
       "glob example_env (Path ''docs'') ''*.md'' w1 = Inr md_files"
       "subseq converted md_files"
       "list_all2
         (\<lambda>md_file result. \<exists>w0. fst (convert_one example_env output_path False True md_file w0) = Inr result)
         converted [''docs/my_notes.html'', ''docs/z.html'']"
    by blast
  from f(1) have "w1 = example_world"
    by (simp add: resolve_output_dir_def)
  with f(2) ev_glob have "length md_files = 3" by auto
  moreover from f(4) have "length converted = 2"
    by (auto dest: list_all2_lengthD)
  ultimately have "length md_files = 3 \<and> subseq converted md_files \<and> length converted = 2"
    using f(3) by simp
  then have "\<exists>(md_files :: ppath list) converted. length md_files = 3 \<and>
      subseq converted md_files \<and> length converted = 2"
    by blast
  with b' show ?thesis by (intro exI [of _ w'] conjI)
qed

section \<open>A file that cannot be converted\<close>



section \<open>A PDF conversion without a browser\<close>



section \<open>Where the intermediate HTML file is written\<close>

text \<open>
  Claim C8.  Whenever \<open>convert_md_to_pdf\<close> returns a path, its HTML stage has written the
  intermediate file beside the input: in the directory of the input file, under the stem of
  the input and the extension \<open>.html\<close>, whatever PDF path was requested.  The call returns
  either the requested PDF path or, when rendering failed, that HTML path, which then is a
  file in the directory of the input, not in the requested output directory.
\<close>

theorem intermediate_html_beside_input:
  assumes "convert_md_to_pdf E input_file output_file include_headers w = (Inr r, w')"
  shows "\<exists>h w1. convert_md_to_html E input_file None include_headers w = (Inr h, w1) \<and>
           Path h = sibling (Path input_file) ''html'' \<and>
           parent (Path h) = parent (Path input_file) \<and>
           name (Path h) = stem (Path input_file) @ ''.html'' \<and>
           is_file w1 (Path h) \<and>
           (r = requested_pdf input_file output_file \<or>
            r = h \<and> is_file w' (Path r) \<and> parent (Path r) = parent (Path input_file))"
proof -
  from pdf_Inr [OF assms] obtain h w1 b w2 where p:
    "convert_md_to_html E input_file None include_headers w = (Inr h, w1)"
    "html_to_pdf_chrome E h (requested_pdf input_file output_file) w1 = (Inr b, w2)"
    "if b then r = requested_pdf input_file output_file \<and> w' = snd (os_unlink (Path h) w2)
     else r = h \<and> lookup w' = lookup w2"
    by blast
  from html_default_Inr [OF p(1)] have h:
    "tail (Path input_file) \<noteq> []" "Path h = sibling (Path input_file) ''html''"
    "is_file w1 (Path h)"
    by blast+
  have par: "parent (Path h) = parent (Path input_file)"
    using h(1,2) by (simp add: sibling_facts valid_Path)
  have nm: "name (Path h) = stem (Path input_file) @ ''.html''"
    using h(1,2) by (simp add: sibling_facts valid_Path)
  have "is_file (snd (html_to_pdf_chrome E h (requested_pdf input_file output_file) w1)) (Path h)"
    unfolding html_to_pdf_chrome_def by (rule scan_chrome_is_file [OF h(3)])
  then have f2: "is_file w2 (Path h)"
    using p(2) by simp
  have "r = requested_pdf input_file output_file \<or>
      r = h \<and> is_file w' (Path r) \<and> parent (Path r) = parent (Path input_file)"
  proof (cases b)
    case True
    with p(3) show ?thesis by simp
  next
    case False
    with p(3) have "r = h" "lookup w' = lookup w2" by simp_all
    with f2 par show ?thesis by (simp add: is_file_def)
  qed
  with p(1) h(2,3) par nm show ?thesis by blast
qed

theorem intermediate_html_beside_input_witness:
  "\<exists>w'. convert_md_to_pdf example_env ''docs/my_notes.md'' (Some ''out/my_notes.pdf'') True
          example_world = (Inr ''docs/my_notes.html'', w') \<and>
        parent (Path ''docs/my_notes.html'') = parent (Path ''docs/my_notes.md'') \<and>
        parent (Path ''docs/my_notes.html'') \<noteq> parent (Path ''out/my_notes.pdf'') \<and>
        is_file w' (Path ''docs/my_notes.html'')"
proof -
  obtain r w' where "convert_md_to_pdf example_env ''docs/my_notes.md'' (Some ''out/my_notes.pdf'')
      True example_world = (r, w')"
    by (cases "convert_md_to_pdf example_env ''docs/my_notes.md'' (Some ''out/my_notes.pdf'')
      True example_world")
  with ev_pdf_notes have c: "convert_md_to_pdf example_env ''docs/my_notes.md''
      (Some ''out/my_notes.pdf'') True example_world = (Inr ''docs/my_notes.html'', w')"
    by simp
  have d: "''docs/my_notes.html'' \<noteq> requested_pdf ''docs/my_notes.md'' (Some ''out/my_notes.pdf'')"
    by (simp add: requested_pdf_def)
  have e: "parent (Path ''docs/my_notes.html'') \<noteq> parent (Path ''out/my_notes.pdf'')"
    by (simp add: parent_def Path_def root_of_def)
  from intermediate_html_beside_input [OF c] d e c show ?thesis
    by auto
qed

section \<open>The stem of the returned path\<close>

text \<open>
  Claim C5 says that every conversion returns a path with the stem of its source.  The
  single-file operations take the output path from the caller and return it as it is: here
  \<open>my_notes.md\<close> is converted to the requested \<open>other.html\<close>.
\<close>

theorem explicit_output_stem_counterexample:
  "fst (convert_md_to_html example_env ''docs/my_notes.md'' (Some ''docs/other.html'') True
         example_world) = Inr ''docs/other.html'' \<and>
   stem (Path ''docs/other.html'') \<noteq> stem (Path ''docs/my_notes.md'')"
  by (simp add: eval_defs)

text \<open>
  Claim C5, amended.  The returned path has the stem of the source whenever the converter
  chooses the path itself: for an HTML conversion without an output path, for a PDF
  conversion without an output path, for the HTML path that a PDF conversion falls back to
  (an explicit PDF path is otherwise returned as given), and for every result of a batch,
  whose output paths are made from the stems of the matched files.
\<close>

theorem mirrored_stem:
  "(convert_md_to_html E input_file None include_headers w = (Inr r, w') \<longrightarrow>
      stem (Path r) = stem (Path input_file)) \<and>
   (convert_md_to_pdf E input_file None include_headers w = (Inr r, w') \<longrightarrow>
      stem (Path r) = stem (Path input_file)) \<and>
   (convert_md_to_pdf E input_file (Some output_file) include_headers w = (Inr r, w') \<longrightarrow>
      r = output_file \<or> stem (Path r) = stem (Path input_file)) \<and>
   (batch_convert E input_dir output_dir to_pdf pattern include_headers w = (Inr results, w') \<longrightarrow>
      (\<exists>output_path w1 md_files converted.
         resolve_output_dir (Path input_dir) output_dir w = (Inr output_path, w1) \<and>
         glob E (Path input_dir) pattern w1 = Inr md_files \<and>
         subseq converted md_files \<and>
         list_all2 (\<lambda>md_file result. stem (Path result) = stem md_file) converted results))"
proof (intro conjI impI)
  assume a: "convert_md_to_html E input_file None include_headers w = (Inr r, w')"
  from html_default_Inr [OF a] have "tail (Path input_file) \<noteq> []"
    "Path r = sibling (Path input_file) ''html''"
    by blast+
  then show "stem (Path r) = stem (Path input_file)"
    by (simp add: sibling_facts valid_Path)
next
  assume a: "convert_md_to_pdf E input_file None include_headers w = (Inr r, w')"
  from pdf_Inr [OF a] obtain h w1 b w2 where p:
    "convert_md_to_html E input_file None include_headers w = (Inr h, w1)"
    "if b then r = requested_pdf input_file None \<and> w' = snd (os_unlink (Path h) w2)
     else r = h \<and> lookup w' = lookup w2"
    by blast
  from html_default_Inr [OF p(1)] have t: "tail (Path input_file) \<noteq> []"
    "Path h = sibling (Path input_file) ''html''"
    by blast+
  show "stem (Path r) = stem (Path input_file)"
  proof (cases b)
    case True
    have "name (Path input_file) \<noteq> []"
      using t(1) valid_Path [of input_file] by (auto simp: name_def valid_path_def)
    then obtain q where q: "with_suffix (Path input_file) ''.pdf'' = Inr q"
      by (auto simp: with_suffix_def)
    from with_suffix_sibling [OF q] have "q = sibling (Path input_file) ''pdf''" by simp
    with True p(2) q have "r = str_path (sibling (Path input_file) ''pdf'')"
      by (simp add: requested_pdf_def)
    then have "Path r = sibling (Path input_file) ''pdf''"
      using t(1) by (simp add: Path_str_path valid_sibling valid_Path)
    then show ?thesis
      using t(1) by (simp add: sibling_facts valid_Path)
  next
    case False
    with p(2) t show ?thesis
      by (simp add: sibling_facts valid_Path)
  qed
next
  assume a: "convert_md_to_pdf E input_file (Some output_file) include_headers w = (Inr r, w')"
  from pdf_Inr [OF a] obtain h w1 b w2 where p:
    "convert_md_to_html E input_file None include_headers w = (Inr h, w1)"
    "if b then r = requested_pdf input_file (Some output_file) \<and> w' = snd (os_unlink (Path h) w2)
     else r = h \<and> lookup w' = lookup w2"
    by blast
  from html_default_Inr [OF p(1)] have t: "tail (Path input_file) \<noteq> []"
    "Path h = sibling (Path input_file) ''html''"
    by blast+
  show "r = output_file \<or> stem (Path r) = stem (Path input_file)"
  proof (cases b)
    case True
    with p(2) show ?thesis by (simp add: requested_pdf_def)
  next
    case False
    with p(2) t show ?thesis
      by (simp add: sibling_facts valid_Path)
  qed
next
  assume a: "batch_convert E input_dir output_dir to_pdf pattern include_headers w = (Inr results, w')"
  from batch_convert_Inr [OF a] obtain output_path w1 md_files where
    p: "path_exists w (Path input_dir)"
       "resolve_output_dir (Path input_dir) output_dir w = (Inr output_path, w1)"
       "glob E (Path input_dir) pattern w1 = Inr md_files"
    by blast
  have r: "results = rights (outcomes E output_path to_pdf include_headers md_files w1)"
    using batch_convert_loop [OF p, of to_pdf include_headers] a by simp
  from outcomes_subseq [of md_files E output_path to_pdf include_headers w1] r
  obtain converted where c: "subseq converted md_files"
    "list_all2
       (\<lambda>md_file result.
          \<exists>w0. fst (convert_one E output_path to_pdf include_headers md_file w0) = Inr result)
       converted results"
    by auto
  have vo: "valid_path output_path"
    by (rule resolve_output_dir_valid [OF p(2)])
  have "list_all2 (\<lambda>md_file result. stem (Path result) = stem md_file) converted results"
  proof (rule list.rel_mono_strong [OF c(2)])
    fix md_file result
    assume m: "md_file \<in> set converted"
      and e: "\<exists>w0. fst (convert_one E output_path to_pdf include_headers md_file w0) = Inr result"
    from c(1) m have "md_file \<in> set md_files"
      by (auto elim: list_emb_set)
    with glob_valid [OF p(3)] have v: "valid_path md_file" "tail md_file \<noteq> []"
      by simp_all
    from e obtain w0 where
      "fst (convert_one E output_path to_pdf include_headers md_file w0) = Inr result"
      by blast
    from convert_one_stem [OF v vo this] show "stem (Path result) = stem md_file" .
  qed
  with p(2,3) c(1) show "\<exists>output_path w1 md_files converted.
         resolve_output_dir (Path input_dir) output_dir w = (Inr output_path, w1) \<and>
         glob E (Path input_dir) pattern w1 = Inr md_files \<and>
         subseq converted md_files \<and>
         list_all2 (\<lambda>md_file result. stem (Path result) = stem md_file) converted results"
    by blast
qed

theorem mirrored_stem_witness:
  "(\<exists>w'. convert_md_to_html example_env ''docs/my_notes.md'' None True example_world =
          (Inr ''docs/my_notes.html'', w') \<and>
        stem (Path ''docs/my_notes.html'') = stem (Path ''docs/my_notes.md'')) \<and>
   (\<exists>w'. convert_md_to_pdf example_env ''docs/my_notes.md'' (Some ''out/my_notes.pdf'') True
          example_world = (Inr ''docs/my_notes.html'', w') \<and>
        stem (Path ''docs/my_notes.html'') = stem (Path ''docs/my_notes.md'')) \<and>
   (\<exists>w' converted.
        batch_convert example_env ''docs'' None False ''*.md'' True example_world =
          (Inr [''docs/my_notes.html'', ''docs/z.html''], w') \<and>
        list_all2 (\<lambda>md_file result. stem (Path result) = stem md_file) converted
          [''docs/my_notes.html'', ''docs/z.html''])"
proof (intro conjI)
  obtain r w' where "convert_md_to_html example_env ''docs/my_notes.md'' None True example_world
      = (r, w')"
    by (cases "convert_md_to_html example_env ''docs/my_notes.md'' None True example_world")
  with ev_html_notes have c: "convert_md_to_html example_env ''docs/my_notes.md'' None True
      example_world = (Inr ''docs/my_notes.html'', w')"
    by simp
  from mirrored_stem [of example_env "''docs/my_notes.md''" True example_world
      "''docs/my_notes.html''" w'] c
  show "\<exists>w'. convert_md_to_html example_env ''docs/my_notes.md'' None True example_world =
          (Inr ''docs/my_notes.html'', w') \<and>
        stem (Path ''docs/my_notes.html'') = stem (Path ''docs/my_notes.md'')"
    by blast
next
  obtain r w' where "convert_md_to_pdf example_env ''docs/my_notes.md'' (Some ''out/my_notes.pdf'')
      True example_world = (r, w')"
    by (cases "convert_md_to_pdf example_env ''docs/my_notes.md'' (Some ''out/my_notes.pdf'')
      True example_world")
  with ev_pdf_notes have c: "convert_md_to_pdf example_env ''docs/my_notes.md''
      (Some ''out/my_notes.pdf'') True example_world = (Inr ''docs/my_notes.html'', w')"
    by simp
  have "''docs/my_notes.html'' \<noteq> ''out/my_notes.pdf''" by simp
  with mirrored_stem [of example_env "''docs/my_notes.md''" True example_world
      "''docs/my_notes.html''" w' "''out/my_notes.pdf''"] c
  show "\<exists>w'. convert_md_to_pdf example_env ''docs/my_notes.md'' (Some ''out/my_notes.pdf'') True
          example_world = (Inr ''docs/my_notes.html'', w') \<and>
        stem (Path ''docs/my_notes.html'') = stem (Path ''docs/my_notes.md'')"
    by blast
next
  obtain r w' where "batch_convert example_env ''docs'' None False ''*.md'' True example_world
      = (r, w')"
    by (cases "batch_convert example_env ''docs'' None False ''*.md'' True example_world")
  with ev_batch_html have c: "batch_convert example_env ''docs'' None False ''*.md'' True
      example_world = (Inr [''docs/my_notes.html'', ''docs/z.html''], w')"
    by simp
  from mirrored_stem [of example_env _ True example_world _ w' _ "''docs''" None False "''*.md''"
      "[''docs/my_notes.html'', ''docs/z.html'']"] c
  show "\<exists>w' converted.
        batch_convert example_env ''docs'' None False ''*.md'' True example_world =
          (Inr [''docs/my_notes.html'', ''docs/z.html''], w') \<and>
        list_all2 (\<lambda>md_file result. stem (Path result) = stem md_file) converted
          [''docs/my_notes.html'', ''docs/z.html'']"
    by blast
qed

section \<open>The title of the written document\<close>



section \<open>The directories of a batch\<close>

text \<open>
  Claim C6.  \<open>batch_convert\<close> raises \<open>InputDirectoryNotFound\<close> exactly when the input path does
  not exist.  When it returns, the output directory is the input directory if none was
  given and the given one otherwise: every result lies in it (or is the HTML file that a PDF
  conversion fell back to); a given output directory is a directory afterwards, and so is
  every directory above it when the file system was well-formed to begin with.  When the
  pattern matches no file, the call returns the empty list.
\<close>

theorem batch_convert_directories:
  "((\<exists>s w'. batch_convert E input_dir output_dir to_pdf pattern include_headers w =
             (Inl (InputDirectoryNotFound s), w')) =
    (\<not> path_exists w (Path input_dir))) \<and>
   (\<not> path_exists w (Path input_dir) \<longrightarrow>
      batch_convert E input_dir output_dir to_pdf pattern include_headers w =
        (Inl (InputDirectoryNotFound input_dir), w)) \<and>
   (batch_convert E input_dir output_dir to_pdf pattern include_headers w = (Inr results, w') \<longrightarrow>
      (\<forall>r \<in> set results.
         parent (Path r) = (case output_dir of None \<Rightarrow> Path input_dir | Some d \<Rightarrow> Path d) \<or>
         to_pdf \<and> suffix_of (Path r) = ''.html'') \<and>
      (\<forall>d. output_dir = Some d \<longrightarrow>
         is_dir w' (Path d) \<and>
         (wf_world w \<longrightarrow> (\<forall>q \<in> set (ancestors (Path d)). is_dir w' q)))) \<and>
   (path_exists w (Path input_dir) \<and>
    resolve_output_dir (Path input_dir) output_dir w = (Inr output_path, w1) \<and>
    glob E (Path input_dir) pattern w1 = Inr [] \<longrightarrow>
      batch_convert E input_dir output_dir to_pdf pattern include_headers w = (Inr [], w1))"
proof (intro conjI impI)
  show "(\<exists>s w'. batch_convert E input_dir output_dir to_pdf pattern include_headers w =
             (Inl (InputDirectoryNotFound s), w')) =
    (\<not> path_exists w (Path input_dir))"
  proof
    assume "\<exists>s w'. batch_convert E input_dir output_dir to_pdf pattern include_headers w =
             (Inl (InputDirectoryNotFound s), w')"
    then show "\<not> path_exists w (Path input_dir)"
      by (auto simp: batch_convert_def Let_def split: if_splits prod.splits sum.splits)
  next
    assume "\<not> path_exists w (Path input_dir)"
    then show "\<exists>s w'. batch_convert E input_dir output_dir to_pdf pattern include_headers w =
             (Inl (InputDirectoryNotFound s), w')"
      by (simp add: batch_convert_def)
  qed
next
  assume "\<not> path_exists w (Path input_dir)"
  then show "batch_convert E input_dir output_dir to_pdf pattern include_headers w =
        (Inl (InputDirectoryNotFound input_dir), w)"
    by (simp add: batch_convert_def)
next
  assume a: "batch_convert E input_dir output_dir to_pdf pattern include_headers w = (Inr results, w')"
  from batch_convert_Inr [OF a] obtain output_path w1 md_files where
    p: "path_exists w (Path input_dir)"
       "resolve_output_dir (Path input_dir) output_dir w = (Inr output_path, w1)"
       "glob E (Path input_dir) pattern w1 = Inr md_files"
    by blast
  from resolve_output_dir_cases [OF p(2)] have
    o: "output_path = (case output_dir of None \<Rightarrow> Path input_dir | Some d \<Rightarrow> Path d)"
    by blast
  have r: "results = rights (outcomes E output_path to_pdf include_headers md_files w1)"
    using batch_convert_loop [OF p, of to_pdf include_headers] a by simp
  from outcomes_subseq [of md_files E output_path to_pdf include_headers w1] r
  obtain converted where c: "subseq converted md_files"
    "list_all2
       (\<lambda>md_file result.
          \<exists>w0. fst (convert_one E output_path to_pdf include_headers md_file w0) = Inr result)
       converted results"
    by auto
  have vo: "valid_path output_path"
    by (rule resolve_output_dir_valid [OF p(2)])
  have "list_all2 (\<lambda>md_file result. parent (Path result) = output_path \<or>
      to_pdf \<and> suffix_of (Path result) = ''.html'') converted results"
  proof (rule list.rel_mono_strong [OF c(2)])
    fix md_file result
    assume m: "md_file \<in> set converted"
      and e: "\<exists>w0. fst (convert_one E output_path to_pdf include_headers md_file w0) = Inr result"
    from c(1) m have "md_file \<in> set md_files"
      by (auto elim: list_emb_set)
    with glob_valid [OF p(3)] have v: "valid_path md_file" "tail md_file \<noteq> []"
      by simp_all
    from e obtain w0 where
      "fst (convert_one E output_path to_pdf include_headers md_file w0) = Inr result"
      by blast
    from convert_one_place [OF v vo this]
    show "parent (Path result) = output_path \<or> to_pdf \<and> suffix_of (Path result) = ''.html''" .
  qed
  from list_all2_right [OF this] o
  show "\<forall>r \<in> set results.
         parent (Path r) = (case output_dir of None \<Rightarrow> Path input_dir | Some d \<Rightarrow> Path d) \<or>
         to_pdf \<and> suffix_of (Path r) = ''.html''"
    by simp
next
  assume a: "batch_convert E input_dir output_dir to_pdf pattern include_headers w = (Inr results, w')"
  from batch_convert_Inr [OF a] obtain output_path w1 md_files where
    p: "path_exists w (Path input_dir)"
       "resolve_output_dir (Path input_dir) output_dir w = (Inr output_path, w1)"
       "glob E (Path input_dir) pattern w1 = Inr md_files"
    by blast
  have w': "w' = w1 \<or> w' = snd (batch_loop E output_path to_pdf include_headers md_files [] w1)"
    using a p by (auto simp: batch_convert_def Let_def split: if_splits prod.splits)
  have keep: "is_dir w1 q \<Longrightarrow> is_dir w' q" for q
    using w' batch_loop_is_dir [of w1 q E output_path to_pdf include_headers md_files "[]"] by auto
  show "\<forall>d. output_dir = Some d \<longrightarrow>
         is_dir w' (Path d) \<and>
         (wf_world w \<longrightarrow> (\<forall>q \<in> set (ancestors (Path d)). is_dir w' q))"
  proof (intro allI impI conjI)
    fix d assume d: "output_dir = Some d"
    with resolve_output_dir_cases [OF p(2)] have
      f: "is_dir w1 (Path d)" "wf_world w \<longrightarrow> wf_world w1"
      by auto
    from keep [OF f(1)] show "is_dir w' (Path d)" .
    assume "wf_world w"
    with f have "\<forall>q \<in> set (ancestors (Path d)). is_dir w1 q"
      by (simp add: wf_ancestors)
    with keep show "\<forall>q \<in> set (ancestors (Path d)). is_dir w' q" by blast
  qed
next
  assume "path_exists w (Path input_dir) \<and>
    resolve_output_dir (Path input_dir) output_dir w = (Inr output_path, w1) \<and>
    glob E (Path input_dir) pattern w1 = Inr []"
  then show "batch_convert E input_dir output_dir to_pdf pattern include_headers w = (Inr [], w1)"
    by (simp add: batch_convert_def)
qed

theorem batch_convert_directories_witness:
  "\<not> path_exists example_world (Path ''nodir'') \<and>
   batch_convert example_env ''nodir'' None False ''*.md'' True example_world =
     (Inl (InputDirectoryNotFound ''nodir''), example_world) \<and>
   (\<exists>w'. batch_convert example_env ''docs'' (Some ''out/a'') False ''*.md'' True example_world =
           (Inr [''out/a/my_notes.html'', ''out/a/z.html''], w') \<and>
         is_dir w' (Path ''out/a'') \<and>
         (\<forall>q \<in> set (ancestors (Path ''out/a'')). is_dir w' q) \<and>
         (\<forall>r \<in> set [''out/a/my_notes.html'', ''out/a/z.html'']. parent (Path r) = Path ''out/a'')) \<and>
   batch_convert example_env ''docs'' None False ''*.md'' True empty_world = (Inr [], empty_world)"
proof (intro conjI)
  have n: "\<not> path_exists example_world (Path ''nodir'')"
    by (simp add: eval_defs)
  then show "\<not> path_exists example_world (Path ''nodir'')" .
  from batch_convert_directories [of example_env "''nodir''" None False "''*.md''" True
      example_world] n
  show "batch_convert example_env ''nodir'' None False ''*.md'' True example_world =
     (Inl (InputDirectoryNotFound ''nodir''), example_world)"
    by blast
next
  obtain r w' where "batch_convert example_env ''docs'' (Some ''out/a'') False ''*.md'' True
      example_world = (r, w')"
    by (cases "batch_convert example_env ''docs'' (Some ''out/a'') False ''*.md'' True example_world")
  with ev_batch_out have c: "batch_convert example_env ''docs'' (Some ''out/a'') False ''*.md''
      True example_world = (Inr [''out/a/my_notes.html'', ''out/a/z.html''], w')"
    by simp
  have wf: "wf_world example_world"
    by (simp add: wf_world_def eval_defs)
  from batch_convert_directories [of example_env "''docs''" "Some ''out/a''" False "''*.md''" True
      example_world "[''out/a/my_notes.html'', ''out/a/z.html'']" w'] c wf
  show "\<exists>w'. batch_convert example_env ''docs'' (Some ''out/a'') False ''*.md'' True example_world =
           (Inr [''out/a/my_notes.html'', ''out/a/z.html''], w') \<and>
         is_dir w' (Path ''out/a'') \<and>
         (\<forall>q \<in> set (ancestors (Path ''out/a'')). is_dir w' q) \<and>
         (\<forall>r \<in> set [''out/a/my_notes.html'', ''out/a/z.html'']. parent (Path r) = Path ''out/a'')"
    by auto
next
  have 1: "path_exists empty_world (Path ''docs'')"
    by (simp add: eval_defs empty_world_def)
  have 2: "resolve_output_dir (Path ''docs'') None empty_world = (Inr (Path ''docs''), empty_world)"
    by (simp add: resolve_output_dir_def)
  have 3: "glob example_env (Path ''docs'') ''*.md'' empty_world = Inr []"
    by (simp add: eval_defs empty_world_def)
  from batch_convert_directories [of example_env "''docs''" None False "''*.md''" True empty_world
      _ _ "Path ''docs''" empty_world] 1 2 3
  show "batch_convert example_env ''docs'' None False ''*.md'' True empty_world = (Inr [], empty_world)"
    by blast
qed

section \<open>The header and the footer of the document\<close>

text \<open>
  Claim C3 says that without header and footer the output contains no \<open>Generated on\<close>, and
  with them exactly one.  The body of the document is the converted source text, which may
  contain the words itself: here the source is \<open>Generated on Monday\<close>, and the document holds
  the words once without the header and twice with it.
\<close>

theorem header_words_in_body_counterexample:
  "fst (convert_md_to_html example_env ''docs/log.md'' None False log_world) = Inr ''docs/log.html'' \<and>
   lookup (snd (convert_md_to_html example_env ''docs/log.md'' None False log_world))
     (Path ''docs/log.html'') =
     Some (File (Text (render_document example_env (Path ''docs/log.md'')
                         ''Generated on Monday'' False))) \<and>
   occurrences ''Generated on''
     (render_document example_env (Path ''docs/log.md'') ''Generated on Monday'' False) = 1 \<and>
   occurrences ''Generated on''
     (render_document example_env (Path ''docs/log.md'') ''Generated on Monday'' True) = 2"
proof (intro conjI)
  show "fst (convert_md_to_html example_env ''docs/log.md'' None False log_world)
      = Inr ''docs/log.html''"
    by (simp add: eval_defs log_world_def)
  show "lookup (snd (convert_md_to_html example_env ''docs/log.md'' None False log_world))
     (Path ''docs/log.html'') =
     Some (File (Text (render_document example_env (Path ''docs/log.md'')
                         ''Generated on Monday'' False)))"
    by (simp add: eval_defs log_world_def)
  have b: "occurrences ''Generated on'' (markdown_convert example_env ''Generated on Monday'') = 1"
    by (simp add: example_env_def)
  show "occurrences ''Generated on''
     (render_document example_env (Path ''docs/log.md'') ''Generated on Monday'' False) = 1"
    using b by (simp only: occ_document_G) simp
  show "occurrences ''Generated on''
     (render_document example_env (Path ''docs/log.md'') ''Generated on Monday'' True) = 2"
    using b by (simp only: occ_document_G) simp
qed

text \<open>
  Claim C3, amended.  The document that \<open>convert_md_to_html\<close> writes is the page template
  filled with two empty strings for the header and the footer when \<open>include_headers\<close> is
  false, and with the header block (the title as an \<open>h1\<close>, the line \<open>Generated on\<close> with the
  time stamp and the print link) and the footer block (the attribution line) when it is true.
  Outside the converted body, each of \<open>Generated on\<close> and
  \<open>Converted with Universal Markdown Converter\<close> occurs not at all in the first case and
  exactly once in the second: the document contains each phrase as often as the body does,
  plus one with the header and footer.  So for a body without the phrases the output has
  none of them without header and footer, and each exactly once with them.
\<close>

theorem header_footer_occurrences:
  "(convert_md_to_html E input_file output_file include_headers w = (Inr r, w1) \<longrightarrow>
      (\<exists>md. lookup w (Path input_file) = Some (File (Text md)) \<and>
            lookup w1 (Path r) =
              Some (File (Text (render_document E (Path input_file) md include_headers))))) \<and>
   render_document E p md False =
     html_template_format (document_title p) css_template (markdown_convert E md) [] [] \<and>
   render_document E p md True =
     html_template_format (document_title p) css_template (markdown_convert E md)
       (create_header_section (document_title p) (strftime (now E))) create_footer_section \<and>
   occurrences ''Generated on'' (render_document E p md include_headers) =
     occurrences ''Generated on'' (markdown_convert E md) + (if include_headers then 1 else 0) \<and>
   occurrences ''Converted with Universal Markdown Converter''
       (render_document E p md include_headers) =
     occurrences ''Converted with Universal Markdown Converter'' (markdown_convert E md) +
     (if include_headers then 1 else 0) \<and>
   (occurrences ''Generated on'' (markdown_convert E md) = 0 \<and>
    occurrences ''Converted with Universal Markdown Converter'' (markdown_convert E md) = 0 \<longrightarrow>
      occurrences ''Generated on'' (render_document E p md False) = 0 \<and>
      occurrences ''Converted with Universal Markdown Converter'' (render_document E p md False) = 0 \<and>
      occurrences ''Generated on'' (render_document E p md True) = 1 \<and>
      occurrences ''Converted with Universal Markdown Converter'' (render_document E p md True) = 1)"
proof (intro conjI impI)
  assume "convert_md_to_html E input_file output_file include_headers w = (Inr r, w1)"
  then show "\<exists>md. lookup w (Path input_file) = Some (File (Text md)) \<and>
            lookup w1 (Path r) =
              Some (File (Text (render_document E (Path input_file) md include_headers)))"
    by (rule html_written)
next
  show "render_document E p md False =
     html_template_format (document_title p) css_template (markdown_convert E md) [] []"
    by (simp add: render_document_def)
  show "render_document E p md True =
     html_template_format (document_title p) css_template (markdown_convert E md)
       (create_header_section (document_title p) (strftime (now E))) create_footer_section"
    by (simp add: render_document_def)
  show "occurrences ''Generated on'' (render_document E p md include_headers) =
     occurrences ''Generated on'' (markdown_convert E md) + (if include_headers then 1 else 0)"
    by (rule occ_document_G)
  show "occurrences ''Converted with Universal Markdown Converter''
       (render_document E p md include_headers) =
     occurrences ''Converted with Universal Markdown Converter'' (markdown_convert E md) +
     (if include_headers then 1 else 0)"
    by (rule occ_document_C)
next
  assume a: "occurrences ''Generated on'' (markdown_convert E md) = 0 \<and>
    occurrences ''Converted with Universal Markdown Converter'' (markdown_convert E md) = 0"
  from a show "occurrences ''Generated on'' (render_document E p md False) = 0"
    by (simp only: occ_document_G) simp
  from a show "occurrences ''Converted with Universal Markdown Converter''
      (render_document E p md False) = 0"
    by (simp only: occ_document_C) simp
  from a show "occurrences ''Generated on'' (render_document E p md True) = 1"
    by (simp only: occ_document_G) simp
  from a show "occurrences ''Converted with Universal Markdown Converter''
      (render_document E p md True) = 1"
    by (simp only: occ_document_C) simp
qed

theorem header_footer_occurrences_witness:
  "(\<exists>w1 md. convert_md_to_html example_env ''docs/my_notes.md'' None True example_world =
             (Inr ''docs/my_notes.html'', w1) \<and>
           lookup w1 (Path ''docs/my_notes.html'') =
             Some (File (Text (render_document example_env (Path ''docs/my_notes.md'') md True)))) \<and>
   occurrences ''Generated on'' (markdown_convert example_env ''Hello'') = 0 \<and>
   occurrences ''Converted with Universal Markdown Converter''
     (markdown_convert example_env ''Hello'') = 0 \<and>
   occurrences ''Generated on''
     (render_document example_env (Path ''docs/my_notes.md'') ''Hello'' False) = 0 \<and>
   occurrences ''Converted with Universal Markdown Converter''
     (render_document example_env (Path ''docs/my_notes.md'') ''Hello'' False) = 0 \<and>
   occurrences ''Generated on''
     (render_document example_env (Path ''docs/my_notes.md'') ''Hello'' True) = 1 \<and>
   occurrences ''Converted with Universal Markdown Converter''
     (render_document example_env (Path ''docs/my_notes.md'') ''Hello'' True) = 1"
proof -
  obtain r w1 where "convert_md_to_html example_env ''docs/my_notes.md'' None True example_world
      = (r, w1)"
    by (cases "convert_md_to_html example_env ''docs/my_notes.md'' None True example_world")
  with ev_html_notes have c: "convert_md_to_html example_env ''docs/my_notes.md'' None True
      example_world = (Inr ''docs/my_notes.html'', w1)"
    by simp
  have b: "occurrences ''Generated on'' (markdown_convert example_env ''Hello'') = 0"
    "occurrences ''Converted with Universal Markdown Converter''
       (markdown_convert example_env ''Hello'') = 0"
    by (simp_all add: example_env_def)
  from header_footer_occurrences [of example_env "''docs/my_notes.md''" None True example_world
      "''docs/my_notes.html''" w1 "Path ''docs/my_notes.md''" "''Hello''"] c b
  show ?thesis by blast
qed

end
